theory Spec2Isabelle
  imports Main "HOL-Library.Word"
begin

section \<open>The TV input HAL bridge: buffer producer and connection registry\<close>

text \<open>
  A shallow embedding of \<^verbatim>\<open>services/core/jni/com_android_server_tv_TvInputHal.cpp\<close>:
  the class \<^verbatim>\<open>BufferProducerThread\<close> (lines 92 to 248) and the registry operations of
  \<^verbatim>\<open>JTvInputHal\<close> (lines 252 to 557). Every function takes the object's fields as a
  record and returns the updated record together with the calls it made on its
  collaborators, in the order the source makes them.
\<close>

subsection \<open>Basic types\<close>

text \<open>
  \<^verbatim>\<open>status_t\<close> is a 32-bit integer whose values are the constants of
  \<^verbatim>\<open>utils/Errors.h\<close>; the source only compares them, so they are plain integers
  here. \<^verbatim>\<open>NAME_NOT_FOUND\<close> is the code Android uses for "not found".
\<close>

type_synonym status_t = int

definition NO_ERROR :: status_t where "NO_ERROR = 0"
definition UNKNOWN_ERROR :: status_t where "UNKNOWN_ERROR = - 2147483648"
definition BAD_VALUE :: status_t where "BAD_VALUE = - 22"
definition NAME_NOT_FOUND :: status_t where "NAME_NOT_FOUND = - 2"
definition TIMED_OUT :: status_t where "TIMED_OUT = - 110"

lemmas status_defs = NO_ERROR_def UNKNOWN_ERROR_def BAD_VALUE_def NAME_NOT_FOUND_def TIMED_OUT_def

text \<open>
  A \<^verbatim>\<open>sp<T>\<close> is a reference that may be NULL: an \<open>option\<close> of the object's identity.
  Surfaces, window buffers and native handles are opaque to this file, so each is
  identified by a number.
\<close>

type_synonym surface = nat
type_synonym buffer = nat
type_synonym native_handle = nat

subsection \<open>BufferProducerThread\<close>

datatype BufferState = CAPTURING | CAPTURED | RELEASED

record BufferProducerThread =
  mSurface :: "surface option"
  mDeviceId :: int
  mStream_stream_id :: int
  mBuffer :: "buffer option"
  mBufferState :: BufferState
  mSeq :: "32 word"
  mShutdown :: bool

text \<open>The constructor (lines 123 to 133); \<^verbatim>\<open>mSurface\<close> starts as the NULL reference.\<close>

definition newBufferProducerThread :: "int \<Rightarrow> int \<Rightarrow> BufferProducerThread" where
  "newBufferProducerThread deviceId stream_id =
     \<lparr>mSurface = None, mDeviceId = deviceId, mStream_stream_id = stream_id,
      mBuffer = None, mBufferState = RELEASED, mSeq = 0, mShutdown = False\<rparr>"

text \<open>
  The calls a producer makes on the capture device and on the surface, with their
  arguments: \<^verbatim>\<open>cancel_capture(device, stream, seq)\<close>,
  \<^verbatim>\<open>request_capture(device, stream, buffer->handle, seq)\<close>,
  \<^verbatim>\<open>anw->queueBuffer(anw, mBuffer.get(), -1)\<close> and
  \<^verbatim>\<open>native_window_dequeue_buffer_and_wait(anw, &buffer)\<close>.
\<close>

datatype producer_call =
    cancel_capture int int "32 word"
  | request_capture int int buffer "32 word"
  | queueBuffer surface "buffer option"
  | dequeue_buffer_and_wait surface

text \<open>The two warnings of \<^verbatim>\<open>onCaptured\<close>: expected and actual sequence, and the state found.\<close>

datatype warning =
    Incorrect_sequence_value "32 word" "32 word"
  | Not_CAPTURING BufferState

text \<open>
  \<^verbatim>\<open>mCondition.waitRelative(mLock, s2ns(1))\<close> releases \<^verbatim>\<open>mLock\<close>, sleeps and takes the
  lock again. While the lock is released the other threads run their own locked
  sections on the same object. One wait is therefore described by the status it
  returns and by what the other threads did to the fields meanwhile. A call is given
  the list of its waits in order; a call whose list is used up while it still has to
  wait has not returned (\<open>None\<close>).
\<close>

type_synonym wait = "status_t \<times> (BufferProducerThread \<Rightarrow> BufferProducerThread)"

text \<open>
  The loop \<^verbatim>\<open>while (mBufferState == CAPTURING) { err = wait; if (err != NO_ERROR) ... }\<close>
  of lines 166 to 172 and 218 to 224. It yields the last status (\<open>NO_ERROR\<close> when the
  loop condition ended it), the fields after the loop, and the fields at each moment
  the lock was released.
\<close>

fun waitWhileCapturing ::
  "BufferProducerThread \<Rightarrow> wait list \<Rightarrow>
     (status_t \<times> BufferProducerThread \<times> BufferProducerThread list) option" where
  "waitWhileCapturing p [] =
     (if mBufferState p = CAPTURING then None else Some (NO_ERROR, p, []))"
| "waitWhileCapturing p ((err, others) # ws) =
     (if mBufferState p = CAPTURING then
        (if err \<noteq> NO_ERROR then Some (err, others p, [p])
         else (case waitWhileCapturing (others p) ws of
                 None \<Rightarrow> None
               | Some (e, q, released) \<Rightarrow> Some (e, q, p # released)))
      else Some (NO_ERROR, p, []))"

text \<open>
  \<^verbatim>\<open>setSurfaceLocked\<close> (lines 158 to 178). The result is the fields when the lock is
  given back, the device calls made, and the fields at each wait.
\<close>

definition setSurfaceLocked ::
  "BufferProducerThread \<Rightarrow> surface option \<Rightarrow> wait list \<Rightarrow>
     (BufferProducerThread \<times> producer_call list \<times> BufferProducerThread list) option" where
  "setSurfaceLocked p surface ws =
     (if surface = mSurface p then Some (p, [], [])
      else
        let calls = (if mBufferState p = CAPTURING
                     then [cancel_capture (mDeviceId p) (mStream_stream_id p) (mSeq p)]
                     else [])
        in case waitWhileCapturing p ws of
             None \<Rightarrow> None
           | Some (err, q, released) \<Rightarrow>
               let q1 = q\<lparr>mBuffer := None\<rparr>;
                   q2 = q1\<lparr>mBufferState := RELEASED\<rparr>;
                   q3 = q2\<lparr>mSurface := surface\<rparr>
               in Some (q3, calls, released))"

definition setSurface ::
  "BufferProducerThread \<Rightarrow> surface option \<Rightarrow> wait list \<Rightarrow>
     (BufferProducerThread \<times> producer_call list \<times> BufferProducerThread list) option" where
  "setSurface p surface ws = setSurfaceLocked p surface ws"

text \<open>\<^verbatim>\<open>onCaptured\<close> (lines 180 to 195): the new fields and the warnings logged.\<close>

definition onCaptured ::
  "BufferProducerThread \<Rightarrow> 32 word \<Rightarrow> bool \<Rightarrow> BufferProducerThread \<times> warning list" where
  "onCaptured p seq succeeded =
     (let w1 = (if seq \<noteq> mSeq p then [Incorrect_sequence_value (mSeq p) seq] else []);
          w2 = (if mBufferState p \<noteq> CAPTURING then [Not_CAPTURING (mBufferState p)] else []);
          p' = (if succeeded then p\<lparr>mBufferState := CAPTURED\<rparr>
                else p\<lparr>mBuffer := None, mBufferState := RELEASED\<rparr>)
      in (p', w1 @ w2))"

text \<open>
  \<^verbatim>\<open>shutdown\<close> (lines 197 to 202). \<^verbatim>\<open>requestExitAndWait\<close> belongs to the base class
  \<^verbatim>\<open>Thread\<close> and touches none of the fields above.
\<close>

definition shutdown ::
  "BufferProducerThread \<Rightarrow> wait list \<Rightarrow>
     (BufferProducerThread \<times> producer_call list \<times> BufferProducerThread list) option" where
  "shutdown p ws = setSurfaceLocked (p\<lparr>mShutdown := True\<rparr>) None ws"

text \<open>
  What the surroundings answer during one call of \<^verbatim>\<open>threadLoop\<close>: the waits, the
  status of \<^verbatim>\<open>queueBuffer\<close>, and the status and buffer of
  \<^verbatim>\<open>native_window_dequeue_buffer_and_wait\<close> (the buffer is read only when the status
  is \<open>NO_ERROR\<close>; the source dereferences it at once, so it is not NULL then).
\<close>

record loop_env =
  waits :: "wait list"
  queueBuffer_err :: status_t
  dequeue_result :: "status_t \<times> buffer"

text \<open>
  \<^verbatim>\<open>threadLoop\<close> (lines 204 to 248): the returned flag, the fields when the lock is
  given back, the calls made, and the fields at each wait.
\<close>

definition threadLoop ::
  "BufferProducerThread \<Rightarrow> loop_env \<Rightarrow>
     (bool \<times> BufferProducerThread \<times> producer_call list \<times> BufferProducerThread list) option" where
  "threadLoop p env =
     (case mSurface p of
        None \<Rightarrow>
          (case waits env of
             [] \<Rightarrow> None
           | (err, others) # _ \<Rightarrow>
               if err \<noteq> NO_ERROR \<and> err \<noteq> TIMED_OUT then Some (False, others p, [], [p])
               else Some (True, others p, [], [p]))
      | Some anw \<Rightarrow>
          (case waitWhileCapturing p (waits env) of
             None \<Rightarrow> None
           | Some (err, q, released) \<Rightarrow>
               if err \<noteq> NO_ERROR then Some (False, q, [], released)
               else if mBufferState q = CAPTURED \<and> queueBuffer_err env \<noteq> NO_ERROR
               then Some (False, q, [queueBuffer anw (mBuffer q)], released)
               else
                 let calls1 = (if mBufferState q = CAPTURED
                               then [queueBuffer anw (mBuffer q)] else []);
                     q1 = (if mBufferState q = CAPTURED
                           then q\<lparr>mBuffer := None, mBufferState := RELEASED\<rparr> else q)
                 in if mBuffer q1 = None \<and> \<not> mShutdown q1 then
                      (case dequeue_result env of (derr, buffer) \<Rightarrow>
                         if derr \<noteq> NO_ERROR
                         then Some (False, q1, calls1 @ [dequeue_buffer_and_wait anw], released)
                         else Some (True,
                                q1\<lparr>mBuffer := Some buffer, mBufferState := CAPTURING,
                                   mSeq := mSeq q1 + 1\<rparr>,
                                calls1 @ [dequeue_buffer_and_wait anw,
                                          request_capture (mDeviceId q1) (mStream_stream_id q1)
                                            buffer (mSeq q1 + 1)],
                                released))
                    else Some (True, q1, calls1, released)))"

subsection \<open>KeyedVector\<close>

text \<open>
  \<^verbatim>\<open>KeyedVector<KEY, VALUE>\<close> of \<^verbatim>\<open>utils/KeyedVector.h\<close> is a vector of key and value
  pairs kept sorted by key, with at most one pair for each key. Its operations, as the
  source uses them:
  \<^item> \<^verbatim>\<open>indexOfKey(k)\<close> is negative exactly when the key is absent: \<open>map_of kv k = None\<close>;
  \<^item> \<^verbatim>\<open>editValueFor(k)\<close> returns a reference to the value of a key and aborts the
    process (\<^verbatim>\<open>LOG_ALWAYS_FATAL_IF\<close>) when the key is absent: \<open>map_of kv k\<close>, with
    \<open>None\<close> for the abort; writing through the reference is \<open>kv_store\<close>;
  \<^item> \<^verbatim>\<open>add(k, v)\<close> inserts the pair at its sorted position, or replaces the value of
    a key already present;
  \<^item> \<^verbatim>\<open>removeItem(k)\<close> removes the pair of the key, if any;
  \<^item> \<^verbatim>\<open>keyAt(i)\<close> is the key of the i-th pair, \<^verbatim>\<open>size()\<close> the number of pairs.
\<close>

type_synonym ('k, 'v) KeyedVector = "('k \<times> 'v) list"

fun kv_store :: "('k, 'v) KeyedVector \<Rightarrow> 'k \<Rightarrow> 'v \<Rightarrow> ('k, 'v) KeyedVector" where
  "kv_store [] k v = []"
| "kv_store ((k', v') # kv) k v =
     (if k' = k then (k', v) # kv else (k', v') # kv_store kv k v)"

fun kv_add :: "('k::linorder, 'v) KeyedVector \<Rightarrow> 'k \<Rightarrow> 'v \<Rightarrow> ('k, 'v) KeyedVector" where
  "kv_add [] k v = [(k, v)]"
| "kv_add ((k', v') # kv) k v =
     (if k < k' then (k, v) # (k', v') # kv
      else if k = k' then (k, v) # kv
      else (k', v') # kv_add kv k v)"

definition kv_removeItem :: "('k, 'v) KeyedVector \<Rightarrow> 'k \<Rightarrow> ('k, 'v) KeyedVector" where
  "kv_removeItem kv k = filter (\<lambda>(k', v). k' \<noteq> k) kv"

definition keyAt :: "('k, 'v) KeyedVector \<Rightarrow> nat \<Rightarrow> 'k" where
  "keyAt kv i = fst (kv ! i)"

subsection \<open>JTvInputHal: the connection registry\<close>

datatype tv_stream_type_t =
    TV_STREAM_TYPE_INDEPENDENT_VIDEO_SOURCE
  | TV_STREAM_TYPE_BUFFER_PRODUCER

text \<open>
  The class \<^verbatim>\<open>Connection\<close> (lines 269 to 280). Its constructor initialises nothing:
  the three references start as NULL and \<^verbatim>\<open>mStreamType\<close> holds no assigned value
  (\<open>None\<close>) until line 387 assigns one. The producer a connection refers to is kept
  inside the connection.
\<close>

record Connection =
  mSurface :: "surface option"
  mStreamType :: "tv_stream_type_t option"
  mSourceHandle :: "native_handle option"
  mThread :: "BufferProducerThread option"

definition newConnection :: Connection where
  "newConnection = \<lparr>mSurface = None, mStreamType = None, mSourceHandle = None, mThread = None\<rparr>"

record JTvInputHal =
  mConnections :: "(int, (int, Connection) KeyedVector) KeyedVector"

text \<open>The HIDL types \<^verbatim>\<open>Result\<close> and \<^verbatim>\<open>TvStreamConfig\<close> of the tv.input 1.0 interface.\<close>

datatype Result = OK | UNKNOWN | NO_RESOURCE | INVALID_ARGUMENTS | INVALID_STATE

record TvStreamConfig =
  streamId :: int
  maxVideoWidth :: "32 word"
  maxVideoHeight :: "32 word"

text \<open>
  The surroundings of one registry call: what the \<^verbatim>\<open>ITvInput\<close> service answers to
  \<^verbatim>\<open>getStreamConfigurations\<close>, \<^verbatim>\<open>openStream\<close> (a result and a handle that may be
  NULL) and \<^verbatim>\<open>closeStream\<close>; what \<^verbatim>\<open>native_handle_clone\<close> returns for a handle (a
  copy, or NULL when it cannot make one); what \<^verbatim>\<open>Surface::isValid\<close> says of a
  surface; and, for the \<^verbatim>\<open>shutdown\<close> of the producer of a stream, the waits it meets.
\<close>

record surroundings =
  getStreamConfigurations :: "int \<Rightarrow> Result \<times> TvStreamConfig list"
  openStream :: "int \<Rightarrow> int \<Rightarrow> Result \<times> native_handle option"
  closeStream :: "int \<Rightarrow> int \<Rightarrow> Result"
  native_handle_clone :: "native_handle \<Rightarrow> native_handle option"
  isValid :: "surface \<Rightarrow> bool"
  shutdownWaits :: "int \<Rightarrow> wait list"

text \<open>
  What a registry call does to its collaborators, in order: calls on the capture
  device service, \<^verbatim>\<open>setSidebandStream\<close> on a surface, the device calls of a producer
  that is shut down, and the notifications raised through \<^verbatim>\<open>CallVoidMethod\<close>.
\<close>

datatype hal_call =
    GetStreamConfigurations int
  | OpenStream int int
  | CloseStream int int
  | setSidebandStream surface "native_handle option"
  | ofProducer producer_call
  | deviceUnavailable int
  | firstFrameCaptured int int

text \<open>
  A registry call returns a value, or aborts the process in \<^verbatim>\<open>editValueFor\<close>, or does
  not return because the producer it shuts down keeps waiting.
\<close>

datatype 'a outcome = Return 'a | Fatal | NoReturn

text \<open>The search of lines 376 to 382: the index of the first entry for the stream, or -1.\<close>

fun configIndex :: "TvStreamConfig list \<Rightarrow> int \<Rightarrow> nat \<Rightarrow> int" where
  "configIndex [] sid i = - 1"
| "configIndex (c # list) sid i =
     (if streamId c = sid then int i else configIndex list sid (Suc i))"

text \<open>Lines 409 to 413, on the connection the reference points to.\<close>

definition bindSurface ::
  "Connection \<Rightarrow> surface option \<Rightarrow> hal_call list \<Rightarrow> status_t \<times> Connection \<times> hal_call list" where
  "bindSurface connection surface calls =
     (NO_ERROR, connection\<lparr>mSurface := surface\<rparr>,
      calls @ (case surface of
                 None \<Rightarrow> []
               | Some s \<Rightarrow> [setSidebandStream s (mSourceHandle connection)]))"

text \<open>
  Lines 348 to 413 of \<^verbatim>\<open>addOrUpdateStream\<close>, on the connection the reference points
  to: the status returned, the connection as the call leaves it, and the calls made.
  In the callback of \<^verbatim>\<open>openStream\<close> (lines 392 to 401) the result stays \<^verbatim>\<open>OK\<close> only
  for a handle that is not NULL, and \<^verbatim>\<open>sidebandStream\<close> becomes what
  \<^verbatim>\<open>native_handle_clone\<close> returns, which the source does not test. Line 407 wraps it:
  \<^verbatim>\<open>NativeHandle::create\<close> gives the NULL reference for a NULL handle.
\<close>

definition addOrUpdateStream_connection ::
  "surroundings \<Rightarrow> int \<Rightarrow> int \<Rightarrow> surface option \<Rightarrow> Connection \<Rightarrow>
     status_t \<times> Connection \<times> hal_call list" where
  "addOrUpdateStream_connection env deviceId sid surface connection =
     (if mSurface connection = surface then (NO_ERROR, connection, [])
      else
        let calls1 = (case mSurface connection of
                        None \<Rightarrow> []
                      | Some old \<Rightarrow>
                          if mStreamType connection = Some TV_STREAM_TYPE_INDEPENDENT_VIDEO_SOURCE
                             \<and> isValid env old
                          then [setSidebandStream old None] else []);
            c1 = connection\<lparr>mSurface := None\<rparr>
        in if mSourceHandle c1 = None \<and> mThread c1 = None then
             (case getStreamConfigurations env deviceId of (res, configs) \<Rightarrow>
                if res \<noteq> OK
                then (UNKNOWN_ERROR, c1, calls1 @ [GetStreamConfigurations deviceId])
                else if configIndex configs sid 0 = - 1
                then (BAD_VALUE, c1, calls1 @ [GetStreamConfigurations deviceId])
                else
                  let c2 = c1\<lparr>mStreamType := Some TV_STREAM_TYPE_INDEPENDENT_VIDEO_SOURCE\<rparr>;
                      calls2 = calls1 @ [GetStreamConfigurations deviceId, OpenStream deviceId sid]
                  in (case openStream env deviceId sid of
                        (OK, Some handle) \<Rightarrow>
                          bindSurface (c2\<lparr>mSourceHandle := native_handle_clone env handle\<rparr>)
                            surface calls2
                      | _ \<Rightarrow> (UNKNOWN_ERROR, c2, calls2)))
           else bindSurface c1 surface calls1)"

text \<open>
  \<^verbatim>\<open>addOrUpdateStream\<close> (lines 341 to 414): the two lookups, the connection added
  when the stream has none, and the write through the reference.
\<close>

definition addOrUpdateStream ::
  "JTvInputHal \<Rightarrow> surroundings \<Rightarrow> int \<Rightarrow> int \<Rightarrow> surface option \<Rightarrow>
     (status_t \<times> JTvInputHal \<times> hal_call list) outcome" where
  "addOrUpdateStream hal env deviceId sid surface =
     (case map_of (mConnections hal) deviceId of
        None \<Rightarrow> Fatal
      | Some connections0 \<Rightarrow>
          let connections = (if map_of connections0 sid = None
                             then kv_add connections0 sid newConnection
                             else connections0)
          in (case map_of connections sid of
                None \<Rightarrow> Fatal
              | Some connection \<Rightarrow>
                  (case addOrUpdateStream_connection env deviceId sid surface connection of
                     (status, connection', calls) \<Rightarrow>
                       Return (status,
                               hal\<lparr>mConnections :=
                                     kv_store (mConnections hal) deviceId
                                       (kv_store connections sid connection')\<rparr>,
                               calls))))"

text \<open>
  Lines 423 to 442 of \<^verbatim>\<open>removeStream\<close>, on the connection the reference points to;
  \<open>None\<close> when \<^verbatim>\<open>mThread->shutdown()\<close> does not return.
\<close>

definition removeStream_connection ::
  "surroundings \<Rightarrow> int \<Rightarrow> int \<Rightarrow> Connection \<Rightarrow>
     (status_t \<times> Connection \<times> hal_call list) option" where
  "removeStream_connection env deviceId sid connection =
     (case mSurface connection of
        None \<Rightarrow> Some (NO_ERROR, connection, [])
      | Some s \<Rightarrow>
          let calls1 = (if isValid env s then [setSidebandStream s None] else []);
              c1 = connection\<lparr>mSurface := None\<rparr>
          in (case (case mThread c1 of
                      None \<Rightarrow> Some []
                    | Some thread \<Rightarrow>
                        (case shutdown thread (shutdownWaits env sid) of
                           None \<Rightarrow> None
                         | Some (thread', calls, released) \<Rightarrow> Some (map ofProducer calls))) of
                None \<Rightarrow> None
              | Some calls2 \<Rightarrow>
                  let c2 = c1\<lparr>mThread := None\<rparr>;
                      calls3 = calls1 @ calls2 @ [CloseStream deviceId sid]
                  in if closeStream env deviceId sid \<noteq> OK
                     then Some (BAD_VALUE, c2, calls3)
                     else Some (NO_ERROR, c2\<lparr>mSourceHandle := None\<rparr>, calls3)))"

text \<open>\<^verbatim>\<open>removeStream\<close> (lines 416 to 443).\<close>

definition removeStream ::
  "JTvInputHal \<Rightarrow> surroundings \<Rightarrow> int \<Rightarrow> int \<Rightarrow>
     (status_t \<times> JTvInputHal \<times> hal_call list) outcome" where
  "removeStream hal env deviceId sid =
     (case map_of (mConnections hal) deviceId of
        None \<Rightarrow> Fatal
      | Some connections \<Rightarrow>
          (case map_of connections sid of
             None \<Rightarrow> Return (BAD_VALUE, hal, [])
           | Some connection \<Rightarrow>
               (case removeStream_connection env deviceId sid connection of
                  None \<Rightarrow> NoReturn
                | Some (status, connection', calls) \<Rightarrow>
                    Return (status,
                            hal\<lparr>mConnections :=
                                  kv_store (mConnections hal) deviceId
                                    (kv_store connections sid connection')\<rparr>,
                            calls))))"

text \<open>
  Writing through a reference changes a value and no key; this is what lets the sweep
  of \<^verbatim>\<open>onDeviceUnavailable\<close> below run to the end of the table.
\<close>

lemma map_fst_kv_store: "map fst (kv_store kv k v) = map fst kv"
  by (induction kv) auto

lemma map_of_kv_store:
  "map_of (kv_store kv k v) k' =
     (if k' = k \<and> map_of kv k \<noteq> None then Some v else map_of kv k')"
  by (induction kv) auto

lemma removeStream_keys:
  assumes "removeStream hal env deviceId sid = Return (status, hal', calls)"
    and "map_of (mConnections hal) deviceId = Some connections"
  shows "\<exists>connections'. map_of (mConnections hal') deviceId = Some connections'
            \<and> map fst connections' = map fst connections"
  using assms
  by (auto simp: removeStream_def map_of_kv_store map_fst_kv_store split: option.splits)

text \<open>
  The loop of lines 509 to 511, from index \<open>i\<close> on: \<^verbatim>\<open>connections\<close> refers to the table
  of the device inside the registry, so \<^verbatim>\<open>size()\<close> and \<^verbatim>\<open>keyAt(i)\<close> read the table as
  the calls of \<^verbatim>\<open>removeStream\<close> left it. The value \<^verbatim>\<open>removeStream\<close> returns is dropped.
\<close>

function removeStreams ::
  "JTvInputHal \<Rightarrow> surroundings \<Rightarrow> int \<Rightarrow> nat \<Rightarrow> (JTvInputHal \<times> hal_call list) outcome" where
  "removeStreams hal env deviceId i =
     (case map_of (mConnections hal) deviceId of
        None \<Rightarrow> Fatal
      | Some connections \<Rightarrow>
          if i < length connections then
            (case removeStream hal env deviceId (keyAt connections i) of
               Return (status, hal', calls) \<Rightarrow>
                 (case removeStreams hal' env deviceId (Suc i) of
                    Return (hal'', calls') \<Rightarrow> Return (hal'', calls @ calls')
                  | Fatal \<Rightarrow> Fatal
                  | NoReturn \<Rightarrow> NoReturn)
             | Fatal \<Rightarrow> Fatal
             | NoReturn \<Rightarrow> NoReturn)
          else Return (hal, []))"
  by pat_completeness auto

termination removeStreams
proof (relation "measure (\<lambda>(hal, env, deviceId, i).
         (case map_of (mConnections hal) deviceId of None \<Rightarrow> 0 | Some c \<Rightarrow> length c) - i)")
  show "wf (measure (\<lambda>(hal, env, deviceId, i).
         (case map_of (mConnections hal) deviceId of None \<Rightarrow> 0 | Some c \<Rightarrow> length c) - i))"
    by simp
next
  fix hal :: JTvInputHal and env :: surroundings and deviceId :: int and i :: nat
    and connections r and status :: status_t and rest hal' and calls :: "hal_call list"
  assume table: "map_of (mConnections hal) deviceId = Some connections"
    and i: "i < length connections"
    and ret: "removeStream hal env deviceId (keyAt connections i) = Return r"
    and r: "(status, rest) = r" "(hal', calls) = rest"
  from ret r have "removeStream hal env deviceId (keyAt connections i) = Return (status, hal', calls)"
    by simp
  from removeStream_keys [OF this table] obtain connections' where
    table': "map_of (mConnections hal') deviceId = Some connections'"
    and keys: "map fst connections' = map fst connections"
    by blast
  from keys have "length connections' = length connections"
    by (rule map_eq_imp_length_eq)
  with table table' i show "((hal', env, deviceId, Suc i), (hal, env, deviceId, i))
      \<in> measure (\<lambda>(hal, env, deviceId, i).
         (case map_of (mConnections hal) deviceId of None \<Rightarrow> 0 | Some c \<Rightarrow> length c) - i)"
    by simp
qed

text \<open>
  \<^verbatim>\<open>onDeviceUnavailable\<close> (lines 505 to 520): the lookup, the loop, \<^verbatim>\<open>clear()\<close> on
  the table of the device, \<^verbatim>\<open>removeItem\<close>, and the notification.
\<close>

definition onDeviceUnavailable ::
  "JTvInputHal \<Rightarrow> surroundings \<Rightarrow> int \<Rightarrow> (JTvInputHal \<times> hal_call list) outcome" where
  "onDeviceUnavailable hal env deviceId =
     (case map_of (mConnections hal) deviceId of
        None \<Rightarrow> Fatal
      | Some connections \<Rightarrow>
          (case removeStreams hal env deviceId 0 of
             Return (hal', calls) \<Rightarrow>
               let cleared = kv_store (mConnections hal') deviceId []
               in Return (hal'\<lparr>mConnections := kv_removeItem cleared deviceId\<rparr>,
                          calls @ [deviceUnavailable deviceId])
           | Fatal \<Rightarrow> Fatal
           | NoReturn \<Rightarrow> NoReturn))"

text \<open>
  \<^verbatim>\<open>JTvInputHal::onCaptured\<close> (lines 536 to 557); the warnings of the producer go to the
  log and are not part of the result.
\<close>

definition JTvInputHal_onCaptured ::
  "JTvInputHal \<Rightarrow> int \<Rightarrow> int \<Rightarrow> 32 word \<Rightarrow> bool \<Rightarrow> (JTvInputHal \<times> hal_call list) outcome" where
  "JTvInputHal_onCaptured hal deviceId sid seq succeeded =
     (case map_of (mConnections hal) deviceId of
        None \<Rightarrow> Fatal
      | Some connections \<Rightarrow>
          (case map_of connections sid of
             None \<Rightarrow> Fatal
           | Some connection \<Rightarrow>
               (case mThread connection of
                  None \<Rightarrow> Return (hal, [])
                | Some thread \<Rightarrow>
                    let thread' = fst (onCaptured thread seq succeeded);
                        connection' = connection\<lparr>mThread := Some thread'\<rparr>
                    in Return (hal\<lparr>mConnections :=
                                     kv_store (mConnections hal) deviceId
                                       (kv_store connections sid connection')\<rparr>,
                               if seq = 0 then [firstFrameCaptured deviceId sid] else []))))"

subsection \<open>The thread of a producer\<close>

text \<open>
  The base class \<^verbatim>\<open>Thread\<close> calls \<^verbatim>\<open>threadLoop\<close> again and again, until it returns
  false or the exit of the thread is requested. Between two calls the lock is free,
  so each call comes with what the other threads did to the fields after it. A run
  is the list of the calls made; it yields the fields at its end and all the calls
  on the device and the surface, in order.
\<close>

fun threadRun ::
  "BufferProducerThread \<Rightarrow> (loop_env \<times> (BufferProducerThread \<Rightarrow> BufferProducerThread)) list \<Rightarrow>
     (BufferProducerThread \<times> producer_call list) option" where
  "threadRun p [] = Some (p, [])"
| "threadRun p ((env, between) # rest) =
     (case threadLoop p env of
        None \<Rightarrow> None
      | Some (continue, q, calls, released) \<Rightarrow>
          if continue then
            (case threadRun (between q) rest of
               None \<Rightarrow> None
             | Some (r, calls') \<Rightarrow> Some (r, calls @ calls'))
          else Some (q, calls))"

text \<open>The sequence numbers of the \<^verbatim>\<open>request_capture\<close> calls among some calls, in order.\<close>

fun requested :: "producer_call list \<Rightarrow> 32 word list" where
  "requested [] = []"
| "requested (request_capture deviceId sid handle seq # calls) = seq # requested calls"
| "requested (call # calls) = requested calls"

section \<open>Properties of the buffer producer\<close>

subsection \<open>Notions used in the statements\<close>

text \<open>The buffer reference is held exactly in the states \<open>CAPTURING\<close> and \<open>CAPTURED\<close>.\<close>

definition buffer_invariant :: "BufferProducerThread \<Rightarrow> bool" where
  "buffer_invariant p =
     ((mBuffer p \<noteq> None) = (mBufferState p = CAPTURING \<or> mBufferState p = CAPTURED))"

text \<open>What the other threads do during each of the waits keeps a property of the fields.\<close>

definition others_preserve :: "(BufferProducerThread \<Rightarrow> bool) \<Rightarrow> wait list \<Rightarrow> bool" where
  "others_preserve I ws = (\<forall>(err, others) \<in> set ws. \<forall>q. I q \<longrightarrow> I (others q))"

text \<open>The other threads leave the sequence counter as it is.\<close>

definition keeps_mSeq :: "(BufferProducerThread \<Rightarrow> BufferProducerThread) \<Rightarrow> bool" where
  "keeps_mSeq others = (\<forall>q. mSeq (others q) = mSeq q)"

definition waits_keep_mSeq :: "wait list \<Rightarrow> bool" where
  "waits_keep_mSeq ws = (\<forall>(err, others) \<in> set ws. keeps_mSeq others)"

definition others_keep_mSeq ::
  "(loop_env \<times> (BufferProducerThread \<Rightarrow> BufferProducerThread)) list \<Rightarrow> bool" where
  "others_keep_mSeq envs =
     (\<forall>(env, between) \<in> set envs. keeps_mSeq between \<and> waits_keep_mSeq (waits env))"

subsection \<open>Concrete producers and surroundings\<close>

text \<open>A producer of stream 0 of device 1, bound to surface 1, with capture 3 in flight.\<close>

definition capturing_example :: BufferProducerThread where
  "capturing_example =
     \<lparr>BufferProducerThread.mSurface = Some 1, mDeviceId = 1, mStream_stream_id = 0,
      mBuffer = Some 7, mBufferState = CAPTURING, mSeq = 3, mShutdown = False\<rparr>"

text \<open>A wait during which the device reports a capture.\<close>

definition completion :: "32 word \<Rightarrow> bool \<Rightarrow> wait" where
  "completion seq succeeded = (NO_ERROR, \<lambda>q. fst (onCaptured q seq succeeded))"

text \<open>A wait that times out with nothing changed.\<close>

definition timed_out :: wait where
  "timed_out = (TIMED_OUT, \<lambda>q. q)"

text \<open>
  A new producer after \<^verbatim>\<open>setSurface\<close> with surface 1; a producer that shows the frame
  of a given sequence number; a call of \<^verbatim>\<open>threadLoop\<close> that meets no wait and no
  error and dequeues buffer 8; the device completing the capture in flight.
\<close>

definition bound :: BufferProducerThread where
  "bound = \<lparr>BufferProducerThread.mSurface = Some 1, mDeviceId = 1, mStream_stream_id = 0,
      mBuffer = None, mBufferState = RELEASED, mSeq = 0, mShutdown = False\<rparr>"

definition showing :: "32 word \<Rightarrow> BufferProducerThread" where
  "showing seq =
     \<lparr>BufferProducerThread.mSurface = Some 1, mDeviceId = 1, mStream_stream_id = 0,
      mBuffer = Some 8, mBufferState = CAPTURED, mSeq = seq, mShutdown = False\<rparr>"

definition frame_env :: loop_env where
  "frame_env = \<lparr>waits = [], queueBuffer_err = NO_ERROR, dequeue_result = (NO_ERROR, 8)\<rparr>"

definition completes :: "BufferProducerThread \<Rightarrow> BufferProducerThread" where
  "completes q = fst (onCaptured q (mSeq q) True)"

definition two_frames :: "producer_call list" where
  "two_frames = [dequeue_buffer_and_wait 1, request_capture 1 0 8 1,
                 queueBuffer 1 (Some 8), dequeue_buffer_and_wait 1, request_capture 1 0 8 2]"

subsection \<open>The waits\<close>

lemma others_preserve_Cons:
  "others_preserve I ((err, f) # ws) = ((\<forall>q. I q \<longrightarrow> I (f q)) \<and> others_preserve I ws)"
  by (simp add: others_preserve_def)

lemma waitWhileCapturing_invariant:
  "I p \<Longrightarrow> others_preserve I ws \<Longrightarrow> waitWhileCapturing p ws = Some (e, q, released)
     \<Longrightarrow> I q \<and> (\<forall>r \<in> set released. I r)"
proof (induction ws arbitrary: p released)
  case Nil
  then show ?case by (simp split: if_splits)
next
  case (Cons w ws)
  obtain err f where w: "w = (err, f)" by (cases w)
  from Cons.prems(2) have pres: "\<forall>q. I q \<longrightarrow> I (f q)" and rest: "others_preserve I ws"
    by (simp_all add: w others_preserve_Cons)
  show ?case
  proof (cases "mBufferState p = CAPTURING")
    case False
    with Cons.prems show ?thesis by (simp add: w)
  next
    case cap: True
    show ?thesis
    proof (cases "err \<noteq> NO_ERROR")
      case True
      with Cons.prems cap pres show ?thesis by (auto simp: w)
    next
      case False
      with Cons.prems(3) cap obtain rel where
        rec: "waitWhileCapturing (f p) ws = Some (e, q, rel)" and released: "released = p # rel"
        by (auto simp: w split: option.splits)
      from pres Cons.prems(1) have "I (f p)" by simp
      from Cons.IH [OF this rest rec] Cons.prems(1) released show ?thesis by simp
    qed
  qed
qed

lemma waitWhileCapturing_left:
  "waitWhileCapturing p ws = Some (e, q, released) \<Longrightarrow> e = NO_ERROR \<Longrightarrow> mBufferState q \<noteq> CAPTURING"
  by (induction ws arbitrary: p released) (auto split: if_splits option.splits)

lemma waitWhileCapturing_mSeq:
  "\<forall>(err, others) \<in> set ws. keeps_mSeq others \<Longrightarrow>
   waitWhileCapturing p ws = Some (e, q, released) \<Longrightarrow> mSeq q = mSeq p"
proof (induction ws arbitrary: p released)
  case Nil
  then show ?case by (simp split: if_splits)
next
  case (Cons w ws)
  obtain err f where w: "w = (err, f)" by (cases w)
  from Cons.prems(1) have f: "mSeq (f p) = mSeq p" and rest: "\<forall>(err, others) \<in> set ws. keeps_mSeq others"
    by (simp_all add: w keeps_mSeq_def)
  show ?case
  proof (cases "mBufferState p = CAPTURING \<and> err = NO_ERROR")
    case False
    with Cons.prems(2) f show ?thesis by (auto simp: w split: if_splits)
  next
    case True
    with Cons.prems(2) obtain rel where "waitWhileCapturing (f p) ws = Some (e, q, rel)"
      by (auto simp: w split: option.splits)
    from Cons.IH [OF rest this] f show ?thesis by simp
  qed
qed

subsection \<open>The buffer reference and the state tag\<close>

lemma onCaptured_invariant:
  "buffer_invariant p \<Longrightarrow> succeeded \<longrightarrow> mBufferState p \<noteq> RELEASED
     \<Longrightarrow> buffer_invariant (fst (onCaptured p seq succeeded))"
  by (cases "mBufferState p") (auto simp: onCaptured_def buffer_invariant_def Let_def)

lemma setSurfaceLocked_invariant:
  assumes "buffer_invariant p" "others_preserve buffer_invariant ws"
    "setSurfaceLocked p surface ws = Some (p', calls, released)"
  shows "buffer_invariant p' \<and> (\<forall>r \<in> set released. buffer_invariant r)"
proof (cases "surface = BufferProducerThread.mSurface p")
  case True
  with assms show ?thesis by (simp add: setSurfaceLocked_def)
next
  case False
  with assms(3) obtain e q where w: "waitWhileCapturing p ws = Some (e, q, released)"
    and p': "p' = q\<lparr>mBuffer := None, mBufferState := RELEASED, BufferProducerThread.mSurface := surface\<rparr>"
    by (auto simp: setSurfaceLocked_def Let_def split: option.splits)
  from waitWhileCapturing_invariant [OF assms(1,2) w] p' show ?thesis
    by (simp add: buffer_invariant_def)
qed

lemma threadLoop_invariant:
  assumes "buffer_invariant p" "others_preserve buffer_invariant (waits env)"
    "threadLoop p env = Some (continue, p', calls, released)"
  shows "buffer_invariant p' \<and> (\<forall>r \<in> set released. buffer_invariant r)"
proof (cases "BufferProducerThread.mSurface p")
  case None
  with assms show ?thesis
    by (auto simp: threadLoop_def others_preserve_Cons split: list.splits if_splits)
next
  case (Some anw)
  with assms(3) obtain e q where w: "waitWhileCapturing p (waits env) = Some (e, q, released)"
    by (auto simp: threadLoop_def Let_def split: option.splits if_splits prod.splits)
  from waitWhileCapturing_invariant [OF assms(1,2) w]
  have q: "buffer_invariant q" and rel: "\<forall>r \<in> set released. buffer_invariant r" by simp_all
  from assms(3) Some w q have "buffer_invariant p'"
    by (auto simp: threadLoop_def Let_def buffer_invariant_def dest: waitWhileCapturing_left split: if_splits prod.splits)
  with rel show ?thesis by simp
qed

lemma others_preserve_failed_completion:
  "others_preserve buffer_invariant [completion seq False]"
  by (simp add: others_preserve_def completion_def onCaptured_invariant)

text \<open>
  C1, as the code has it. The constructor establishes the invariant "a buffer is held
  exactly when the state is \<open>CAPTURING\<close> or \<open>CAPTURED\<close>". \<^verbatim>\<open>setSurface\<close>,
  \<^verbatim>\<open>shutdown\<close> and each call of \<^verbatim>\<open>threadLoop\<close> keep it, at each wait (where the lock
  is released) and when they return, provided the other threads keep it while the
  lock is theirs. \<^verbatim>\<open>onCaptured\<close> keeps it when the capture failed, or when it
  succeeded and the state is not \<open>RELEASED\<close>, whatever the sequence number.
\<close>

theorem buffer_invariant_preserved:
  "buffer_invariant (newBufferProducerThread deviceId sid)
   \<and> (buffer_invariant p \<and> (succeeded \<longrightarrow> mBufferState p \<noteq> RELEASED)
        \<longrightarrow> buffer_invariant (fst (onCaptured p seq succeeded)))
   \<and> (buffer_invariant p \<and> others_preserve buffer_invariant ws
        \<and> setSurface p surface ws = Some (p1, calls1, released1)
        \<longrightarrow> buffer_invariant p1 \<and> list_all buffer_invariant released1)
   \<and> (buffer_invariant p \<and> others_preserve buffer_invariant ws
        \<and> shutdown p ws = Some (p2, calls2, released2)
        \<longrightarrow> buffer_invariant p2 \<and> list_all buffer_invariant released2)
   \<and> (buffer_invariant p \<and> others_preserve buffer_invariant (waits env)
        \<and> threadLoop p env = Some (continue, p3, calls3, released3)
        \<longrightarrow> buffer_invariant p3 \<and> list_all buffer_invariant released3)"
proof (intro conjI impI)
  show "buffer_invariant (newBufferProducerThread deviceId sid)"
    by (simp add: buffer_invariant_def newBufferProducerThread_def)
next
  assume "buffer_invariant p \<and> (succeeded \<longrightarrow> mBufferState p \<noteq> RELEASED)"
  then show "buffer_invariant (fst (onCaptured p seq succeeded))"
    by (simp add: onCaptured_invariant)
next
  assume a: "buffer_invariant p \<and> others_preserve buffer_invariant ws
        \<and> setSurface p surface ws = Some (p1, calls1, released1)"
  then have "buffer_invariant p1 \<and> (\<forall>r \<in> set released1. buffer_invariant r)"
    using setSurfaceLocked_invariant [of p ws surface p1 calls1 released1]
    by (simp add: setSurface_def)
  then show "buffer_invariant p1" "list_all buffer_invariant released1"
    by (simp_all add: list_all_iff)
next
  assume a: "buffer_invariant p \<and> others_preserve buffer_invariant ws
        \<and> shutdown p ws = Some (p2, calls2, released2)"
  then have "buffer_invariant (p\<lparr>mShutdown := True\<rparr>)"
    by (simp add: buffer_invariant_def)
  with a have "buffer_invariant p2 \<and> (\<forall>r \<in> set released2. buffer_invariant r)"
    using setSurfaceLocked_invariant [of "p\<lparr>mShutdown := True\<rparr>" ws None p2 calls2 released2]
    by (simp add: shutdown_def)
  then show "buffer_invariant p2" "list_all buffer_invariant released2"
    by (simp_all add: list_all_iff)
next
  assume a: "buffer_invariant p \<and> others_preserve buffer_invariant (waits env)
        \<and> threadLoop p env = Some (continue, p3, calls3, released3)"
  then have "buffer_invariant p3 \<and> (\<forall>r \<in> set released3. buffer_invariant r)"
    using threadLoop_invariant [of p env continue p3 calls3 released3] by simp
  then show "buffer_invariant p3" "list_all buffer_invariant released3"
    by (simp_all add: list_all_iff)
qed

text \<open>
  The hypotheses of C1 hold of the producer with capture 3 in flight: a completion
  with the stale number 9, and \<^verbatim>\<open>setSurface\<close>, \<^verbatim>\<open>shutdown\<close> and \<^verbatim>\<open>threadLoop\<close> each
  waiting once while the device reports that capture 3 failed.
\<close>

theorem buffer_invariant_preserved_witness:
  "buffer_invariant capturing_example
   \<and> buffer_invariant (fst (onCaptured capturing_example 9 True))
   \<and> others_preserve buffer_invariant [completion 3 False]
   \<and> setSurface capturing_example (Some 2) [completion 3 False] =
       Some (capturing_example\<lparr>mBuffer := None, mBufferState := RELEASED,
               BufferProducerThread.mSurface := Some 2\<rparr>,
             [cancel_capture 1 0 3], [capturing_example])
   \<and> buffer_invariant (capturing_example\<lparr>mBuffer := None, mBufferState := RELEASED,
               BufferProducerThread.mSurface := Some 2\<rparr>)
   \<and> list_all buffer_invariant [capturing_example]
   \<and> shutdown capturing_example [completion 3 False] =
       Some (capturing_example\<lparr>mBuffer := None, mBufferState := RELEASED,
               BufferProducerThread.mSurface := None, mShutdown := True\<rparr>,
             [cancel_capture 1 0 3], [capturing_example\<lparr>mShutdown := True\<rparr>])
   \<and> threadLoop capturing_example
         \<lparr>waits = [completion 3 False], queueBuffer_err = NO_ERROR, dequeue_result = (NO_ERROR, 8)\<rparr> =
       Some (True, capturing_example\<lparr>mBuffer := Some 8, mSeq := 4\<rparr>,
             [dequeue_buffer_and_wait 1, request_capture 1 0 8 4], [capturing_example])
   \<and> buffer_invariant (capturing_example\<lparr>mBuffer := Some 8, mSeq := 4\<rparr>)"
proof -
  have inv: "buffer_invariant capturing_example"
    by (simp add: buffer_invariant_def capturing_example_def)
  have others: "others_preserve buffer_invariant [completion 3 False]"
    by (rule others_preserve_failed_completion)
  have set: "setSurface capturing_example (Some 2) [completion 3 False] =
       Some (capturing_example\<lparr>mBuffer := None, mBufferState := RELEASED,
               BufferProducerThread.mSurface := Some 2\<rparr>,
             [cancel_capture 1 0 3], [capturing_example])"
    by (simp add: setSurface_def setSurfaceLocked_def capturing_example_def completion_def
        onCaptured_def NO_ERROR_def)
  have down: "shutdown capturing_example [completion 3 False] =
       Some (capturing_example\<lparr>mBuffer := None, mBufferState := RELEASED,
               BufferProducerThread.mSurface := None, mShutdown := True\<rparr>,
             [cancel_capture 1 0 3], [capturing_example\<lparr>mShutdown := True\<rparr>])"
    by (simp add: shutdown_def setSurfaceLocked_def capturing_example_def completion_def
        onCaptured_def NO_ERROR_def)
  have loop: "threadLoop capturing_example
         \<lparr>waits = [completion 3 False], queueBuffer_err = NO_ERROR, dequeue_result = (NO_ERROR, 8)\<rparr> =
       Some (True, capturing_example\<lparr>mBuffer := Some 8, mSeq := 4\<rparr>,
             [dequeue_buffer_and_wait 1, request_capture 1 0 8 4], [capturing_example])"
    by (simp add: threadLoop_def capturing_example_def completion_def
        onCaptured_def NO_ERROR_def)
  have cap: "True \<longrightarrow> mBufferState capturing_example \<noteq> RELEASED"
    by (simp add: capturing_example_def)
  note inst = buffer_invariant_preserved [of 1 0 capturing_example True 9
      "[completion 3 False]" "Some 2" _ _ _ _ _ _
      "\<lparr>waits = [completion 3 False], queueBuffer_err = NO_ERROR, dequeue_result = (NO_ERROR, 8)\<rparr>"]
  from inst inv others set down loop cap show ?thesis
    by simp
qed

text \<open>
  C1 as stated fails on the path of \<^verbatim>\<open>onCaptured\<close> where the state is not
  \<open>CAPTURING\<close>: a successful completion with sequence 0 on a new producer (state
  \<open>RELEASED\<close>, no buffer, counter 0) sets the state to \<open>CAPTURED\<close> with no buffer held.
\<close>

theorem buffer_invariant_counterexample:
  "buffer_invariant (newBufferProducerThread 1 0)
   \<and> mSeq (newBufferProducerThread 1 0) = 0
   \<and> \<not> buffer_invariant (fst (onCaptured (newBufferProducerThread 1 0) 0 True))"
  by (simp add: buffer_invariant_def onCaptured_def newBufferProducerThread_def)

subsection \<open>Completions\<close>

text \<open>
  C2, as the code has it. \<^verbatim>\<open>onCaptured\<close> reads the sequence number and the state only
  to log a warning: no warning is logged exactly when the number is the expected one
  and the state is \<open>CAPTURING\<close>. In every case a successful completion sets the state
  to \<open>CAPTURED\<close> and keeps the buffer, a failed one clears the buffer and sets the
  state to \<open>RELEASED\<close>; the counter, the surface and the shutdown flag stay.
\<close>

theorem onCaptured_transition:
  assumes "onCaptured p seq succeeded = (p', warnings)"
  shows "(succeeded \<longrightarrow> mBufferState p' = CAPTURED \<and> mBuffer p' = mBuffer p)
       \<and> (\<not> succeeded \<longrightarrow> mBufferState p' = RELEASED \<and> mBuffer p' = None)
       \<and> (warnings = [] \<longleftrightarrow> seq = mSeq p \<and> mBufferState p = CAPTURING)
       \<and> mSeq p' = mSeq p \<and> BufferProducerThread.mSurface p' = BufferProducerThread.mSurface p
       \<and> mShutdown p' = mShutdown p"
  using assms by (auto simp: onCaptured_def Let_def split: if_splits)

text \<open>The hypothesis of C2 at a new producer and a successful completion numbered 5.\<close>

theorem onCaptured_transition_witness:
  "onCaptured (newBufferProducerThread 1 0) 5 True =
     ((newBufferProducerThread 1 0)\<lparr>mBufferState := CAPTURED\<rparr>,
      [Incorrect_sequence_value 0 5, Not_CAPTURING RELEASED])
   \<and> mBufferState ((newBufferProducerThread 1 0)\<lparr>mBufferState := CAPTURED\<rparr>) = CAPTURED
   \<and> mBuffer ((newBufferProducerThread 1 0)\<lparr>mBufferState := CAPTURED\<rparr>) = None
   \<and> mSeq ((newBufferProducerThread 1 0)\<lparr>mBufferState := CAPTURED\<rparr>) = 0"
proof -
  have run: "onCaptured (newBufferProducerThread 1 0) 5 True =
     ((newBufferProducerThread 1 0)\<lparr>mBufferState := CAPTURED\<rparr>,
      [Incorrect_sequence_value 0 5, Not_CAPTURING RELEASED])"
    by (simp add: onCaptured_def newBufferProducerThread_def)
  from onCaptured_transition [OF run] run show ?thesis
    by (simp add: newBufferProducerThread_def)
qed

text \<open>
  C2 as stated fails. On a new producer (counter 0, state \<open>RELEASED\<close>) a successful
  completion numbered 5 logs both warnings and changes the state to \<open>CAPTURED\<close>. On a
  producer with capture 3 in flight a failed completion numbered 2 logs the warning
  on the number, clears the buffer and changes the state to \<open>RELEASED\<close>.
\<close>

theorem onCaptured_stale_counterexample:
  "onCaptured (newBufferProducerThread 1 0) 5 True =
     ((newBufferProducerThread 1 0)\<lparr>mBufferState := CAPTURED\<rparr>,
      [Incorrect_sequence_value 0 5, Not_CAPTURING RELEASED])
   \<and> mBufferState (newBufferProducerThread 1 0) = RELEASED
   \<and> onCaptured \<lparr>BufferProducerThread.mSurface = Some 1, mDeviceId = 1, mStream_stream_id = 0,
        mBuffer = Some 7, mBufferState = CAPTURING, mSeq = 3, mShutdown = False\<rparr> 2 False =
     (\<lparr>BufferProducerThread.mSurface = Some 1, mDeviceId = 1, mStream_stream_id = 0,
        mBuffer = None, mBufferState = RELEASED, mSeq = 3, mShutdown = False\<rparr>,
      [Incorrect_sequence_value 3 2])"
  by (simp add: onCaptured_def newBufferProducerThread_def)

subsection \<open>Binding a surface while a capture is in flight\<close>

text \<open>
  C6. \<^verbatim>\<open>setSurface\<close> with the surface already bound changes nothing and calls
  nothing. With another surface and the state \<open>CAPTURING\<close>, it asks the device to
  cancel the capture in flight and, whenever it returns, the new surface was
  installed on fields whose state was \<open>RELEASED\<close> and whose buffer was cleared. When
  the first wait ends with a status other than \<open>NO_ERROR\<close> (a timeout is one), it
  returns at once with that result, whatever the other threads did meanwhile.
\<close>

theorem setSurface_rebind_under_capture:
  "setSurface p (BufferProducerThread.mSurface p) ws = Some (p, [], [])
   \<and> (surface \<noteq> BufferProducerThread.mSurface p \<and> mBufferState p = CAPTURING
        \<and> setSurface p surface ws = Some (p', calls, released)
      \<longrightarrow> calls = [cancel_capture (mDeviceId p) (mStream_stream_id p) (mSeq p)]
          \<and> (\<exists>q. mBufferState q = RELEASED \<and> mBuffer q = None
                 \<and> p' = q\<lparr>BufferProducerThread.mSurface := surface\<rparr>)
          \<and> mBufferState p' = RELEASED \<and> mBuffer p' = None
          \<and> BufferProducerThread.mSurface p' = surface)
   \<and> (surface \<noteq> BufferProducerThread.mSurface p \<and> mBufferState p = CAPTURING
        \<and> err \<noteq> NO_ERROR
      \<longrightarrow> setSurface p surface ((err, others) # ws') =
            Some ((others p)\<lparr>mBuffer := None, mBufferState := RELEASED,
                             BufferProducerThread.mSurface := surface\<rparr>,
                  [cancel_capture (mDeviceId p) (mStream_stream_id p) (mSeq p)], [p]))"
proof (intro conjI impI)
  show "setSurface p (BufferProducerThread.mSurface p) ws = Some (p, [], [])"
    by (simp add: setSurface_def setSurfaceLocked_def)
next
  assume a: "surface \<noteq> BufferProducerThread.mSurface p \<and> mBufferState p = CAPTURING
        \<and> setSurface p surface ws = Some (p', calls, released)"
  then obtain e q where w: "waitWhileCapturing p ws = Some (e, q, released)"
    and p': "p' = (q\<lparr>mBuffer := None, mBufferState := RELEASED\<rparr>)
                    \<lparr>BufferProducerThread.mSurface := surface\<rparr>"
    and calls: "calls = [cancel_capture (mDeviceId p) (mStream_stream_id p) (mSeq p)]"
    by (auto simp: setSurface_def setSurfaceLocked_def Let_def split: option.splits)
  from calls show "calls = [cancel_capture (mDeviceId p) (mStream_stream_id p) (mSeq p)]" .
  have "mBufferState (q\<lparr>mBuffer := None, mBufferState := RELEASED\<rparr>) = RELEASED
      \<and> mBuffer (q\<lparr>mBuffer := None, mBufferState := RELEASED\<rparr>) = None" by simp
  with p' show "\<exists>q. mBufferState q = RELEASED \<and> mBuffer q = None
                 \<and> p' = q\<lparr>BufferProducerThread.mSurface := surface\<rparr>" by blast
  from p' show "mBufferState p' = RELEASED" "mBuffer p' = None"
    "BufferProducerThread.mSurface p' = surface" by simp_all
next
  assume "surface \<noteq> BufferProducerThread.mSurface p \<and> mBufferState p = CAPTURING
        \<and> err \<noteq> NO_ERROR"
  then show "setSurface p surface ((err, others) # ws') =
            Some ((others p)\<lparr>mBuffer := None, mBufferState := RELEASED,
                             BufferProducerThread.mSurface := surface\<rparr>,
                  [cancel_capture (mDeviceId p) (mStream_stream_id p) (mSeq p)], [p])"
    by (simp add: setSurface_def setSurfaceLocked_def)
qed

text \<open>
  The hypotheses of C6 at the producer with capture 3 in flight, bound to surface 1
  and given surface 2, its wait timing out with the capture still in flight.
\<close>

theorem setSurface_rebind_under_capture_witness:
  "Some 2 \<noteq> BufferProducerThread.mSurface capturing_example
   \<and> mBufferState capturing_example = CAPTURING
   \<and> TIMED_OUT \<noteq> NO_ERROR
   \<and> setSurface capturing_example (Some 2) [timed_out] =
       Some (capturing_example\<lparr>mBuffer := None, mBufferState := RELEASED,
                               BufferProducerThread.mSurface := Some 2\<rparr>,
             [cancel_capture 1 0 3], [capturing_example])
   \<and> setSurface capturing_example (Some 1) [] = Some (capturing_example, [], [])"
proof -
  have hyps: "Some 2 \<noteq> BufferProducerThread.mSurface capturing_example"
    "mBufferState capturing_example = CAPTURING" "TIMED_OUT \<noteq> NO_ERROR"
    by (simp_all add: capturing_example_def status_defs)
  have same: "BufferProducerThread.mSurface capturing_example = Some 1"
    by (simp add: capturing_example_def)
  have ids: "mDeviceId capturing_example = 1" "mStream_stream_id capturing_example = 0"
    "mSeq capturing_example = 3"
    by (simp_all add: capturing_example_def)
  from hyps same ids
    setSurface_rebind_under_capture [of capturing_example "[]" "Some 2" _ _ _ TIMED_OUT "\<lambda>q. q" "[]"]
  show ?thesis
    by (simp add: timed_out_def)
qed

subsection \<open>Sequence numbers\<close>

lemma requested_append: "requested (xs @ ys) = requested xs @ requested ys"
  by (induction xs rule: requested.induct) auto

lemma threadLoop_mSeq:
  assumes "\<forall>(err, others) \<in> set (waits env). keeps_mSeq others"
    and "threadLoop p env = Some (continue, p', calls, released)"
  shows "(requested calls = [] \<and> mSeq p' = mSeq p)
       \<or> (requested calls = [mSeq p + 1] \<and> mSeq p' = mSeq p + 1)"
proof (cases "BufferProducerThread.mSurface p")
  case None
  with assms show ?thesis
    by (auto simp: threadLoop_def keeps_mSeq_def split: list.splits if_splits)
next
  case (Some anw)
  with assms(2) obtain e q where w: "waitWhileCapturing p (waits env) = Some (e, q, released)"
    by (auto simp: threadLoop_def Let_def split: option.splits if_splits prod.splits)
  from waitWhileCapturing_mSeq [OF assms(1) w] have q: "mSeq q = mSeq p" .
  from assms(2) Some w q show ?thesis
    by (auto simp: threadLoop_def Let_def split: if_splits prod.splits)
qed

lemma threadRun_requested:
  "others_keep_mSeq envs \<Longrightarrow> threadRun p envs = Some (r, calls) \<Longrightarrow>
     requested calls = map (\<lambda>i. mSeq p + 1 + of_nat i) [0..<length (requested calls)]
     \<and> mSeq r = mSeq p + of_nat (length (requested calls))"
proof (induction envs arbitrary: p calls)
  case Nil
  then show ?case by simp
next
  case (Cons e envs)
  obtain env between where e: "e = (env, between)" by (cases e)
  from Cons.prems(1) have ws: "\<forall>(err, others) \<in> set (waits env). keeps_mSeq others"
    and b: "mSeq (between q) = mSeq q" and rest: "others_keep_mSeq envs" for q
    by (simp_all add: e others_keep_mSeq_def keeps_mSeq_def waits_keep_mSeq_def)
  from Cons.prems(2) obtain continue q calls1 released where
    loop: "threadLoop p env = Some (continue, q, calls1, released)"
    by (auto simp: e split: option.splits)
  note step = threadLoop_mSeq [OF ws loop]
  show ?case
  proof (cases continue)
    case False
    with Cons.prems(2) loop have "r = q" "calls = calls1" by (simp_all add: e)
    with step show ?thesis by auto
  next
    case True
    with Cons.prems(2) loop obtain calls2 where
      run: "threadRun (between q) envs = Some (r, calls2)" and calls: "calls = calls1 @ calls2"
      by (auto simp: e split: option.splits)
    note ih = Cons.IH [OF rest run, unfolded b]
    from step show ?thesis
    proof
      assume "requested calls1 = [] \<and> mSeq q = mSeq p"
      with ih calls show ?thesis by (simp add: requested_append)
    next
      assume s: "requested calls1 = [mSeq p + 1] \<and> mSeq q = mSeq p + 1"
      let ?n = "length (requested calls2)"
      from ih s have r2: "requested calls2 = map (\<lambda>i. mSeq p + 1 + 1 + of_nat i) [0..<?n]"
        and r: "mSeq r = mSeq p + 1 + of_nat ?n" by simp_all
      have "map (\<lambda>i. mSeq p + 1 + of_nat i) [0..<Suc ?n]
          = (mSeq p + 1) # map (\<lambda>i. mSeq p + 1 + 1 + of_nat i) [0..<?n]"
        by (simp add: map_upt_Suc add.assoc del: upt_Suc)
      with r2 r s calls show ?thesis
        by (simp add: requested_append add.assoc del: upt_Suc)
    qed
  qed
qed

lemma unat_seq_plus:
  "unat (a :: 32 word) + n < 2 ^ 32 \<Longrightarrow> unat (a + of_nat n) = unat a + n"
  by (simp add: unat_word_ariths unat_of_nat)

lemma sorted_wrt_seqs:
  assumes "unat (a :: 32 word) + n < 2 ^ 32"
  shows "sorted_wrt (<) (map (\<lambda>i. a + 1 + of_nat i) [0..<n])
       \<and> (\<forall>s \<in> set (map (\<lambda>i. a + 1 + of_nat i) [0..<n]). a < s)"
proof -
  have u: "unat (a + 1 + of_nat i) = unat a + Suc i" if "i < n" for i
  proof -
    from that assms have "unat a + Suc i < 2 ^ 32" by simp
    from unat_seq_plus [OF this] show ?thesis by (simp add: add.assoc)
  qed
  have "a + 1 + of_nat i < a + 1 + of_nat j" if "i < j" "j < n" for i j
    using that u [of i] u [of j] by (simp add: word_less_nat_alt)
  then have "sorted_wrt (<) (map (\<lambda>i. a + 1 + of_nat i) [0..<n])"
    by (simp add: sorted_wrt_iff_nth_less)
  moreover have "a < a + 1 + of_nat i" if "i < n" for i
    using u [OF that] by (simp add: word_less_nat_alt)
  ultimately show ?thesis by auto
qed

text \<open>
  C5, as the code has it. The counter is a \<^verbatim>\<open>uint32_t\<close> that starts at 0, and only the
  request of \<^verbatim>\<open>threadLoop\<close> changes it, by \<^verbatim>\<open>++mSeq\<close>. So in a run of the thread
  during which the other threads leave the counter alone, the requests carry the
  counter at the start plus 1, plus 2, and so on, modulo \<open>2 ^ 32\<close>, and the counter at
  the end is the counter at the start plus the number of requests. As long as this
  sum stays below \<open>2 ^ 32\<close>, the numbers requested are strictly increasing, each is
  larger than the counter at the start, and the counter did not decrease.
  \<^verbatim>\<open>onCaptured\<close>, \<^verbatim>\<open>setSurface\<close> and \<^verbatim>\<open>shutdown\<close> leave the counter as it is.
\<close>

theorem capture_sequence:
  "(others_keep_mSeq envs \<and> threadRun p envs = Some (r, calls) \<longrightarrow>
      requested calls = map (\<lambda>i. mSeq p + 1 + of_nat i) [0..<length (requested calls)]
      \<and> mSeq r = mSeq p + of_nat (length (requested calls))
      \<and> (unat (mSeq p) + length (requested calls) < 2 ^ 32 \<longrightarrow>
           sorted_wrt (<) (requested calls) \<and> (\<forall>s \<in> set (requested calls). mSeq p < s)
           \<and> mSeq p \<le> mSeq r))
   \<and> mSeq (newBufferProducerThread deviceId sid) = 0
   \<and> mSeq (fst (onCaptured p seq succeeded)) = mSeq p
   \<and> (waits_keep_mSeq ws
        \<and> setSurface p surface ws = Some (p1, calls1, released1) \<longrightarrow> mSeq p1 = mSeq p)
   \<and> (waits_keep_mSeq ws
        \<and> shutdown p ws = Some (p2, calls2, released2) \<longrightarrow> mSeq p2 = mSeq p)"
proof (intro conjI impI)
  assume a: "others_keep_mSeq envs \<and> threadRun p envs = Some (r, calls)"
  let ?n = "length (requested calls)"
  from a threadRun_requested [of envs p r calls]
  have req: "requested calls = map (\<lambda>i. mSeq p + 1 + of_nat i) [0..<?n]"
    and r: "mSeq r = mSeq p + of_nat ?n" by simp_all
  from req show "requested calls = map (\<lambda>i. mSeq p + 1 + of_nat i) [0..<?n]" .
  from r show "mSeq r = mSeq p + of_nat ?n" .
  assume small: "unat (mSeq p) + ?n < 2 ^ 32"
  from sorted_wrt_seqs [OF small] req
  show "sorted_wrt (<) (requested calls)" "\<forall>s \<in> set (requested calls). mSeq p < s"
    by simp_all
  from unat_seq_plus [OF small] r show "mSeq p \<le> mSeq r"
    by (simp add: word_le_nat_alt)
next
  show "mSeq (newBufferProducerThread deviceId sid) = 0"
    by (simp add: newBufferProducerThread_def)
next
  show "mSeq (fst (onCaptured p seq succeeded)) = mSeq p"
    by (simp add: onCaptured_def Let_def)
next
  assume "waits_keep_mSeq ws
        \<and> setSurface p surface ws = Some (p1, calls1, released1)"
  then show "mSeq p1 = mSeq p"
    by (auto simp: setSurface_def setSurfaceLocked_def Let_def waits_keep_mSeq_def
        dest: waitWhileCapturing_mSeq split: if_splits option.splits)
next
  assume "waits_keep_mSeq ws
        \<and> shutdown p ws = Some (p2, calls2, released2)"
  then show "mSeq p2 = mSeq p"
    by (auto simp: shutdown_def setSurfaceLocked_def Let_def waits_keep_mSeq_def
        dest: waitWhileCapturing_mSeq split: if_splits option.splits)
qed

lemma keeps_mSeq_completes: "keeps_mSeq completes"
  by (simp add: keeps_mSeq_def completes_def onCaptured_def Let_def)

lemma others_keep_mSeq_frames: "others_keep_mSeq (replicate n (frame_env, completes))"
  by (simp add: others_keep_mSeq_def keeps_mSeq_completes frame_env_def waits_keep_mSeq_def)

lemma frame_from_bound:
  "threadLoop bound frame_env =
     Some (True, bound\<lparr>mBuffer := Some 8, mBufferState := CAPTURING, mSeq := 1\<rparr>,
           [dequeue_buffer_and_wait 1, request_capture 1 0 8 1], [])"
  by (simp add: threadLoop_def bound_def frame_env_def NO_ERROR_def)

lemma frame_from_showing:
  "threadLoop (showing seq) frame_env =
     Some (True, (showing seq)\<lparr>mBufferState := CAPTURING, mSeq := seq + 1\<rparr>,
           [queueBuffer 1 (Some 8), dequeue_buffer_and_wait 1, request_capture 1 0 8 (seq + 1)], [])"
  by (simp add: threadLoop_def showing_def frame_env_def NO_ERROR_def)

text \<open>
  The hypotheses of C5 at the first two frames of a producer bound to a surface, and
  at a \<^verbatim>\<open>setSurface\<close> that unbinds it.
\<close>

theorem capture_sequence_witness:
  "others_keep_mSeq (replicate 2 (frame_env, completes))
   \<and> threadRun bound (replicate 2 (frame_env, completes)) = Some (showing 2, two_frames)
   \<and> requested two_frames = [1, 2]
   \<and> unat (mSeq bound) + length (requested two_frames) < 2 ^ 32
   \<and> sorted_wrt (<) (requested two_frames)
   \<and> mSeq bound \<le> mSeq (showing 2)
   \<and> waits_keep_mSeq [(TIMED_OUT, completes)]
   \<and> setSurface bound None [(TIMED_OUT, completes)] =
       Some (bound\<lparr>BufferProducerThread.mSurface := None\<rparr>, [], [])
   \<and> mSeq (bound\<lparr>BufferProducerThread.mSurface := None\<rparr>) = mSeq bound"
proof -
  have c: "completes ((showing seq)\<lparr>mBufferState := CAPTURING, mSeq := seq'\<rparr>) = showing seq'"
    for seq seq'
    by (simp add: completes_def onCaptured_def showing_def)
  have c0: "completes (bound\<lparr>mBuffer := Some 8, mBufferState := CAPTURING, mSeq := 1\<rparr>) = showing 1"
    by (simp add: completes_def onCaptured_def showing_def bound_def)
  have run: "threadRun bound (replicate 2 (frame_env, completes)) = Some (showing 2, two_frames)"
    by (simp add: numeral_2_eq_2 frame_from_bound frame_from_showing c c0 two_frames_def)
  have keep: "others_keep_mSeq (replicate 2 (frame_env, completes))"
    by (rule others_keep_mSeq_frames)
  have req: "requested two_frames = [1, 2]"
    by (simp add: two_frames_def)
  have small: "unat (mSeq bound) + length (requested two_frames) < 2 ^ 32"
    by (simp add: bound_def req)
  have ws: "waits_keep_mSeq [(TIMED_OUT, completes)]"
    by (simp add: keeps_mSeq_completes waits_keep_mSeq_def)
  have set: "setSurface bound None [(TIMED_OUT, completes)] =
       Some (bound\<lparr>BufferProducerThread.mSurface := None\<rparr>, [], [])"
    by (simp add: setSurface_def setSurfaceLocked_def bound_def)
  note inst = capture_sequence [of "replicate 2 (frame_env, completes)" bound "showing 2" two_frames
      1 0 0 True "[(TIMED_OUT, completes)]" None
      "bound\<lparr>BufferProducerThread.mSurface := None\<rparr>" "[]" "[]"]
  from inst run keep small
  have sorted: "sorted_wrt (<) (requested two_frames) \<and> mSeq bound \<le> mSeq (showing 2)"
    by blast
  from inst ws set
  have kept: "mSeq (bound\<lparr>BufferProducerThread.mSurface := None\<rparr>) = mSeq bound"
    by blast
  from run keep req small sorted ws set kept show ?thesis
    by blast
qed

text \<open>
  C5 as stated fails where the counter wraps around. From the producer showing the
  frame numbered \<open>2 ^ 32 - 2\<close>, the next two requests carry \<open>2 ^ 32 - 1\<close> and then 0,
  and the counter has decreased.
\<close>

theorem capture_sequence_counterexample:
  "others_keep_mSeq (replicate 2 (frame_env, completes))
   \<and> threadRun (showing 4294967294) (replicate 2 (frame_env, completes)) =
       Some (showing 0,
             [queueBuffer 1 (Some 8), dequeue_buffer_and_wait 1, request_capture 1 0 8 4294967295,
              queueBuffer 1 (Some 8), dequeue_buffer_and_wait 1, request_capture 1 0 8 0])
   \<and> requested [queueBuffer 1 (Some 8), dequeue_buffer_and_wait 1, request_capture 1 0 8 4294967295,
              queueBuffer 1 (Some 8), dequeue_buffer_and_wait 1, request_capture 1 0 8 0]
       = [4294967295, 0]
   \<and> \<not> sorted_wrt (<) [4294967295, 0 :: 32 word]
   \<and> mSeq (showing 0) < mSeq (showing 4294967294)"
proof -
  have c: "completes ((showing seq)\<lparr>mBufferState := CAPTURING, mSeq := seq'\<rparr>) = showing seq'"
    for seq seq'
    by (simp add: completes_def onCaptured_def showing_def)
  have wrap: "(4294967296 :: 32 word) = 0"
    by simp
  have "threadRun (showing 4294967294) (replicate 2 (frame_env, completes)) =
       Some (showing 0,
             [queueBuffer 1 (Some 8), dequeue_buffer_and_wait 1, request_capture 1 0 8 4294967295,
              queueBuffer 1 (Some 8), dequeue_buffer_and_wait 1, request_capture 1 0 8 0])"
    by (simp add: numeral_2_eq_2 frame_from_showing c wrap)
  moreover have "mSeq (showing 0) < mSeq (showing 4294967294)"
    by (simp add: showing_def)
  ultimately show ?thesis
    by (simp add: others_keep_mSeq_frames)
qed

text \<open>
  That producer is met in a run: a producer bound to a surface, whose captures all
  succeed, shows the frame numbered \<open>n\<close> after \<open>n\<close> calls of \<^verbatim>\<open>threadLoop\<close>.
\<close>

lemma bound_by_setSurface:
  "setSurface (newBufferProducerThread 1 0) (Some 1) [] = Some (bound, [], [])"
  by (simp add: setSurface_def setSurfaceLocked_def newBufferProducerThread_def bound_def)

lemma frames_from_showing:
  "\<exists>calls. threadRun (showing seq) (replicate n (frame_env, completes)) =
      Some (showing (seq + of_nat n), calls)"
proof (induction n arbitrary: seq)
  case 0
  then show ?case by simp
next
  case (Suc n)
  have "completes ((showing seq)\<lparr>mBufferState := CAPTURING, mSeq := seq + 1\<rparr>) = showing (seq + 1)"
    by (simp add: completes_def onCaptured_def showing_def)
  with Suc [of "seq + 1"] show ?case
    by (auto simp: frame_from_showing add.assoc)
qed

lemma every_seq_reached:
  "\<exists>calls. threadRun bound (replicate (Suc n) (frame_env, completes)) =
      Some (showing (of_nat (Suc n)), calls)"
proof -
  have "completes (bound\<lparr>mBuffer := Some 8, mBufferState := CAPTURING, mSeq := 1\<rparr>) = showing 1"
    by (simp add: completes_def onCaptured_def showing_def bound_def)
  with frames_from_showing [of 1 n] show ?thesis
    by (auto simp: frame_from_bound)
qed

lemma last_seq_reached:
  "\<exists>calls. threadRun bound (replicate (Suc 4294967293) (frame_env, completes)) =
      Some (showing 4294967294, calls)"
proof -
  have w: "(of_nat (Suc 4294967293) :: 32 word) = 4294967294"
    by simp
  from every_seq_reached [of 4294967293] obtain calls where
    "threadRun bound (replicate (Suc 4294967293) (frame_env, completes)) =
       Some (showing (of_nat (Suc 4294967293)), calls)"
    by (rule exE)
  then have "threadRun bound (replicate (Suc 4294967293) (frame_env, completes)) =
       Some (showing 4294967294, calls)"
    by (simp only: w)
  then show ?thesis by (rule exI)
qed

section \<open>Properties of the connection registry\<close>

subsection \<open>Notions used in the statements\<close>

text \<open>The connection registered for a device and a stream, if any.\<close>

definition connectionOf :: "JTvInputHal \<Rightarrow> int \<Rightarrow> int \<Rightarrow> Connection option" where
  "connectionOf hal deviceId sid =
     (case map_of (mConnections hal) deviceId of
        None \<Rightarrow> None
      | Some connections \<Rightarrow> map_of connections sid)"

text \<open>
  The \<^verbatim>\<open>setSidebandStream(NULL)\<close> on the surface a connection is bound to (lines 353
  to 358), and the \<^verbatim>\<open>setSidebandStream\<close> on the new surface (lines 410 to 412).
\<close>

definition unbindCalls :: "surroundings \<Rightarrow> Connection \<Rightarrow> hal_call list" where
  "unbindCalls env c =
     (case mSurface c of
        None \<Rightarrow> []
      | Some old \<Rightarrow>
          if mStreamType c = Some TV_STREAM_TYPE_INDEPENDENT_VIDEO_SOURCE \<and> isValid env old
          then [setSidebandStream old None] else [])"

definition bindCalls :: "surface option \<Rightarrow> native_handle option \<Rightarrow> hal_call list" where
  "bindCalls surface handle =
     (case surface of None \<Rightarrow> [] | Some s \<Rightarrow> [setSidebandStream s handle])"

text \<open>
  The calls \<^verbatim>\<open>removeStream\<close> makes for one entry of the table of a device; and: for
  every entry of a table, the \<^verbatim>\<open>shutdown\<close> of its producer, if it has one, returns.
\<close>

definition removeStream_calls :: "surroundings \<Rightarrow> int \<Rightarrow> int \<times> Connection \<Rightarrow> hal_call list" where
  "removeStream_calls env deviceId entry =
     (case removeStream_connection env deviceId (fst entry) (snd entry) of
        None \<Rightarrow> []
      | Some (status, connection', calls) \<Rightarrow> calls)"

definition all_return :: "surroundings \<Rightarrow> int \<Rightarrow> (int, Connection) KeyedVector \<Rightarrow> bool" where
  "all_return env deviceId connections =
     (\<forall>(sid, c) \<in> set connections. removeStream_connection env deviceId sid c \<noteq> None)"

subsection \<open>Concrete registries and surroundings\<close>

text \<open>
  A service with one configuration, for stream 0, that opens every stream with
  handle 4 and closes every stream; the copy of handle 4 is handle 5; all surfaces
  valid. The registry after device 1 became available. A registry with
  stream 0 of device 1 as an independent video source, with a given surface and
  source handle. A registry whose stream 0 of device 1 has a producer. A registry
  with two streams of device 1 bound to surfaces, and a service that fails to close
  stream 0.
\<close>

definition service_example :: surroundings where
  "service_example =
     \<lparr>getStreamConfigurations =
        (\<lambda>deviceId. (OK, [\<lparr>streamId = 0, maxVideoWidth = 1920, maxVideoHeight = 1080\<rparr>])),
      openStream = (\<lambda>deviceId sid. (OK, Some 4)),
      closeStream = (\<lambda>deviceId sid. OK),
      native_handle_clone = (\<lambda>handle. Some (Suc handle)),
      isValid = (\<lambda>s. True),
      shutdownWaits = (\<lambda>sid. [])\<rparr>"

definition device_available :: JTvInputHal where
  "device_available = \<lparr>mConnections = [(1, [])]\<rparr>"

definition streaming :: "surface option \<Rightarrow> native_handle option \<Rightarrow> JTvInputHal" where
  "streaming surface handle =
     \<lparr>mConnections =
        [(1, [(0, \<lparr>mSurface = surface,
                   mStreamType = Some TV_STREAM_TYPE_INDEPENDENT_VIDEO_SOURCE,
                   mSourceHandle = handle, mThread = None\<rparr>)])]\<rparr>"

definition producing :: "BufferProducerThread \<Rightarrow> JTvInputHal" where
  "producing thread =
     \<lparr>mConnections =
        [(1, [(0, \<lparr>mSurface = Some 1, mStreamType = Some TV_STREAM_TYPE_BUFFER_PRODUCER,
                   mSourceHandle = None, mThread = Some thread\<rparr>)])]\<rparr>"

definition two_streams :: JTvInputHal where
  "two_streams =
     \<lparr>mConnections =
        [(1, [(0, \<lparr>mSurface = Some 1,
                   mStreamType = Some TV_STREAM_TYPE_INDEPENDENT_VIDEO_SOURCE,
                   mSourceHandle = Some 5, mThread = None\<rparr>),
              (1, \<lparr>mSurface = Some 2,
                   mStreamType = Some TV_STREAM_TYPE_INDEPENDENT_VIDEO_SOURCE,
                   mSourceHandle = Some 6, mThread = None\<rparr>)])]\<rparr>"

definition first_close_fails :: surroundings where
  "first_close_fails =
     service_example\<lparr>closeStream := \<lambda>deviceId sid. if sid = 0 then UNKNOWN else OK\<rparr>"

subsection \<open>Tables\<close>

lemma map_of_kv_add: "map_of (kv_add kv k v) k' = (if k' = k then Some v else map_of kv k')"
  by (induction kv) auto

lemma kv_store_same: "map_of kv k = Some v \<Longrightarrow> kv_store kv k v = kv"
  by (induction kv) (auto split: if_splits)

lemma map_of_kv_removeItem:
  "map_of (kv_removeItem kv k) k' = (if k' = k then None else map_of kv k')"
  unfolding kv_removeItem_def by (induction kv) auto

lemma connectionOf_stored:
  "map_of (mConnections hal) deviceId = Some connections0 \<Longrightarrow>
   map_of connections sid \<noteq> None \<Longrightarrow>
   connectionOf (hal\<lparr>mConnections := kv_store (mConnections hal) deviceId
                                       (kv_store connections sid c)\<rparr>) deviceId sid = Some c"
  by (simp add: connectionOf_def map_of_kv_store)

lemma stored_same:
  "map_of (mConnections hal) deviceId = Some connections \<Longrightarrow>
   map_of connections sid = Some c \<Longrightarrow>
   hal\<lparr>mConnections := kv_store (mConnections hal) deviceId (kv_store connections sid c)\<rparr> = hal"
  by (simp add: kv_store_same)

lemma kv_store_nth:
  "distinct (map fst kv) \<Longrightarrow> i < length kv \<Longrightarrow>
     kv_store kv (fst (kv ! i)) v = kv[i := (fst (kv ! i), v)]"
proof (induction kv arbitrary: i)
  case Nil
  then show ?case by simp
next
  case (Cons e kv)
  obtain k' v' where e: "e = (k', v')" by (cases e)
  show ?case
  proof (cases i)
    case 0
    then show ?thesis by (simp add: e)
  next
    case (Suc j)
    with Cons.prems have j: "j < length kv" and d: "distinct (map fst kv)"
      and "k' \<notin> fst ` set kv" by (simp_all add: e)
    then have "k' \<noteq> fst (kv ! j)" by (metis imageI nth_mem)
    with Cons.IH [OF d j] Suc show ?thesis by (simp add: e)
  qed
qed

lemma map_of_nth:
  "distinct (map fst kv) \<Longrightarrow> i < length kv \<Longrightarrow> map_of kv (fst (kv ! i)) = Some (snd (kv ! i))"
  by (simp add: map_of_is_SomeI)

subsection \<open>Evaluations\<close>

lemma first_add:
  "addOrUpdateStream device_available service_example 1 0 (Some 1) =
     Return (NO_ERROR, streaming (Some 1) (Some 5),
             [GetStreamConfigurations 1, OpenStream 1 0, setSidebandStream 1 (Some 5)])"
  by (simp add: addOrUpdateStream_def addOrUpdateStream_connection_def bindSurface_def
      device_available_def service_example_def streaming_def newConnection_def)

lemma remove_close_fails:
  "removeStream (streaming (Some 1) (Some 5))
       (service_example\<lparr>closeStream := \<lambda>deviceId sid. UNKNOWN\<rparr>) 1 0 =
     Return (BAD_VALUE, streaming None (Some 5), [setSidebandStream 1 None, CloseStream 1 0])"
  by (simp add: removeStream_def removeStream_connection_def service_example_def streaming_def)

lemma remove_closes:
  "removeStream (streaming (Some 1) (Some 5)) service_example 1 0 =
     Return (NO_ERROR, streaming None None, [setSidebandStream 1 None, CloseStream 1 0])"
  by (simp add: removeStream_def removeStream_connection_def service_example_def streaming_def)

lemma remove_nothing:
  "removeStream (streaming None handle) service_example 1 0 =
     Return (NO_ERROR, streaming None handle, [])"
  by (simp add: removeStream_def removeStream_connection_def service_example_def streaming_def)

lemma two_streams_run:
  "onDeviceUnavailable two_streams first_close_fails 1 =
     Return (\<lparr>mConnections = []\<rparr>,
             [setSidebandStream 1 None, CloseStream 1 0,
              setSidebandStream 2 None, CloseStream 1 1, deviceUnavailable 1])"
  by (simp add: onDeviceUnavailable_def removeStreams.simps removeStream_def
      removeStream_connection_def two_streams_def first_close_fails_def service_example_def
      keyAt_def kv_removeItem_def)

subsection \<open>Adding a stream\<close>

lemma addOrUpdateStream_connection_NO_ERROR:
  "addOrUpdateStream_connection env deviceId sid surface c = (NO_ERROR, c', calls)
     \<Longrightarrow> mSurface c' = surface"
  by (auto simp: addOrUpdateStream_connection_def bindSurface_def Let_def status_defs
      split: if_splits prod.splits option.splits Result.splits)

lemma addOrUpdateStream_bound:
  assumes "connectionOf hal deviceId sid = Some c" "mSurface c = surface"
  shows "addOrUpdateStream hal env deviceId sid surface = Return (NO_ERROR, hal, [])"
proof -
  from assms(1) obtain connections where
    t: "map_of (mConnections hal) deviceId = Some connections"
    and c: "map_of connections sid = Some c"
    by (auto simp: connectionOf_def split: option.splits)
  from assms(2) have "addOrUpdateStream_connection env deviceId sid surface c = (NO_ERROR, c, [])"
    by (simp add: addOrUpdateStream_connection_def)
  with t c stored_same [OF t c] show ?thesis
    by (simp add: addOrUpdateStream_def)
qed

lemma addOrUpdateStream_Return:
  assumes "addOrUpdateStream hal env deviceId sid surface = Return (status, hal', calls)"
  shows "\<exists>connections c'. map_of (mConnections hal) deviceId = Some connections
           \<and> addOrUpdateStream_connection env deviceId sid surface
                (case map_of connections sid of None \<Rightarrow> newConnection | Some c \<Rightarrow> c)
              = (status, c', calls)
           \<and> connectionOf hal' deviceId sid = Some c'"
proof -
  from assms obtain connections where t: "map_of (mConnections hal) deviceId = Some connections"
    by (auto simp: addOrUpdateStream_def split: option.splits)
  show ?thesis
  proof (cases "map_of connections sid")
    case None
    have "map_of (kv_add connections sid newConnection) sid \<noteq> None"
      by (simp add: map_of_kv_add)
    from connectionOf_stored [OF t this] assms t None show ?thesis
      by (auto simp: addOrUpdateStream_def map_of_kv_add split: prod.splits)
  next
    case (Some c)
    then have "map_of connections sid \<noteq> None" by simp
    from connectionOf_stored [OF t this] assms t Some show ?thesis
      by (auto simp: addOrUpdateStream_def split: prod.splits)
  qed
qed

text \<open>
  C3. When \<^verbatim>\<open>addOrUpdateStream\<close> returns \<open>NO_ERROR\<close>, the same call on the registry it
  left returns \<open>NO_ERROR\<close>, makes no call at all (none on the capture device, none on
  a surface) and leaves the whole registry as it is, whatever the service would
  answer.
\<close>

theorem addOrUpdateStream_idempotent:
  assumes "addOrUpdateStream hal env deviceId sid surface = Return (NO_ERROR, hal', calls)"
  shows "addOrUpdateStream hal' env' deviceId sid surface = Return (NO_ERROR, hal', [])"
proof -
  from addOrUpdateStream_Return [OF assms] obtain c0 c' where
    "addOrUpdateStream_connection env deviceId sid surface c0 = (NO_ERROR, c', calls)"
    and c': "connectionOf hal' deviceId sid = Some c'"
    by blast
  then have "mSurface c' = surface"
    by (simp add: addOrUpdateStream_connection_NO_ERROR)
  with c' show ?thesis by (rule addOrUpdateStream_bound)
qed

text \<open>
  The hypothesis of C3 at the first binding of stream 0 of device 1 to surface 1; the
  second call is made with a service that would fail to open the stream.
\<close>

theorem addOrUpdateStream_idempotent_witness:
  "addOrUpdateStream device_available service_example 1 0 (Some 1) =
     Return (NO_ERROR, streaming (Some 1) (Some 5),
             [GetStreamConfigurations 1, OpenStream 1 0, setSidebandStream 1 (Some 5)])
   \<and> addOrUpdateStream (streaming (Some 1) (Some 5))
        (service_example\<lparr>openStream := \<lambda>deviceId sid. (UNKNOWN, None)\<rparr>) 1 0 (Some 1) =
     Return (NO_ERROR, streaming (Some 1) (Some 5), [])"
  using addOrUpdateStream_idempotent [OF first_add,
      of "service_example\<lparr>openStream := \<lambda>deviceId sid. (UNKNOWN, None)\<rparr>"] first_add
  by blast

lemma configIndex_found:
  "(configIndex configs sid i = - 1) = (sid \<notin> streamId ` set configs)"
  by (induction configs arbitrary: i) auto




text \<open>
  The source does not test what \<^verbatim>\<open>native_handle_clone\<close> returns. When no copy of the
  handle can be made, the call still returns \<open>NO_ERROR\<close> and the connection is bound
  as an independent video source, with the NULL reference as its source handle.
\<close>

lemma first_time_setup_without_copy:
  assumes "mSourceHandle c = None" "mThread c = None" "mSurface c \<noteq> surface"
    and "getStreamConfigurations env deviceId = (OK, configs)"
    and "sid \<in> streamId ` set configs"
    and "openStream env deviceId sid = (OK, Some handle)"
    and "native_handle_clone env handle = None"
  shows "addOrUpdateStream_connection env deviceId sid surface c =
           (NO_ERROR,
            c\<lparr>mSurface := surface,
              mStreamType := Some TV_STREAM_TYPE_INDEPENDENT_VIDEO_SOURCE\<rparr>,
            unbindCalls env c @ [GetStreamConfigurations deviceId, OpenStream deviceId sid]
              @ bindCalls surface None)"
proof -
  from assms(5) have "configIndex configs sid 0 \<noteq> - 1"
    by (simp add: configIndex_found)
  with assms(1-4,6,7) show ?thesis
    by (cases c)
       (simp add: addOrUpdateStream_connection_def bindSurface_def Let_def unbindCalls_def
          bindCalls_def split: option.splits)
qed

subsection \<open>Removing a stream\<close>

text \<open>
  C4, as the code has it. For a registered device and a stream with no connection,
  \<^verbatim>\<open>removeStream\<close> returns \<open>BAD_VALUE\<close>, makes no call and leaves the registry as it
  is. For a device that is not registered, \<^verbatim>\<open>editValueFor\<close> aborts the process.
\<close>

theorem removeStream_unregistered:
  "(map_of (mConnections hal) deviceId = Some connections \<and> map_of connections sid = None
      \<longrightarrow> removeStream hal env deviceId sid = Return (BAD_VALUE, hal, []))
   \<and> (map_of (mConnections hal) deviceId = None
      \<longrightarrow> removeStream hal env deviceId sid = Fatal)"
  by (simp add: removeStream_def)

text \<open>
  The hypotheses of C4: stream 99 of device 1 after the device became available, and
  device 1 in an empty registry.
\<close>

theorem removeStream_unregistered_witness:
  "map_of (mConnections device_available) 1 = Some [] \<and> map_of [] (99 :: int) = (None :: Connection option)
   \<and> removeStream device_available service_example 1 99 = Return (BAD_VALUE, device_available, [])
   \<and> map_of (mConnections \<lparr>mConnections = []\<rparr>) 1 = None
   \<and> removeStream \<lparr>mConnections = []\<rparr> service_example 1 99 = Fatal"
proof -
  have a: "map_of (mConnections device_available) 1 = Some []"
    "map_of [] (99 :: int) = (None :: Connection option)"
    by (simp_all add: device_available_def)
  have b: "map_of (mConnections \<lparr>mConnections = []\<rparr>) 1 = None" by simp
  from removeStream_unregistered [of device_available 1 "[]" 99 service_example] a
  have 1: "removeStream device_available service_example 1 99 = Return (BAD_VALUE, device_available, [])"
    by blast
  from removeStream_unregistered [of "\<lparr>mConnections = []\<rparr>" 1 _ _ service_example] b
  have 2: "removeStream \<lparr>mConnections = []\<rparr> service_example 1 99 = Fatal"
    by blast
  from a b 1 2 show ?thesis by blast
qed

text \<open>
  C4 as stated fails: for stream 99 of the available device 1 the code returned is
  \<open>BAD_VALUE\<close>, which is not the "not found" code \<open>NAME_NOT_FOUND\<close>.
\<close>

theorem removeStream_unregistered_counterexample:
  "connectionOf device_available 1 99 = None
   \<and> removeStream device_available service_example 1 99 = Return (BAD_VALUE, device_available, [])
   \<and> BAD_VALUE \<noteq> NAME_NOT_FOUND"
  by (simp add: connectionOf_def device_available_def removeStream_def status_defs)

lemma removeStream_connection_NO_ERROR:
  assumes "removeStream_connection env deviceId sid c = Some (NO_ERROR, c', calls)"
  shows "mSurface c' = None
       \<and> (mSurface c \<noteq> None \<longrightarrow> mThread c' = None \<and> mSourceHandle c' = None
              \<and> CloseStream deviceId sid \<in> set calls)
       \<and> (mSurface c = None \<longrightarrow> c' = c \<and> calls = [])"
  using assms
  by (auto simp: removeStream_connection_def Let_def status_defs
      split: option.splits if_splits)

text \<open>
  C10, as the code has it. When \<^verbatim>\<open>removeStream\<close> returns \<open>NO_ERROR\<close>, the connection
  is still registered and has no surface, and another \<^verbatim>\<open>removeStream\<close> returns
  \<open>NO_ERROR\<close>, makes no call and changes nothing. When the connection had a surface,
  the stream was closed and the connection is left with no producer and no source
  handle. When it had none, the call made no call and changed nothing, so the
  producer and the source handle are what they were.
\<close>

theorem removeStream_twice:
  assumes "removeStream hal env deviceId sid = Return (NO_ERROR, hal', calls)"
  shows "\<exists>c c'. connectionOf hal deviceId sid = Some c \<and> connectionOf hal' deviceId sid = Some c'
           \<and> mSurface c' = None
           \<and> (mSurface c \<noteq> None \<longrightarrow> mThread c' = None \<and> mSourceHandle c' = None
                  \<and> CloseStream deviceId sid \<in> set calls)
           \<and> (mSurface c = None \<longrightarrow> hal' = hal \<and> calls = [])
           \<and> removeStream hal' env' deviceId sid = Return (NO_ERROR, hal', [])"
proof -
  from assms obtain connections where t: "map_of (mConnections hal) deviceId = Some connections"
    by (auto simp: removeStream_def split: option.splits)
  from assms t obtain c where c: "map_of connections sid = Some c"
    by (auto simp: removeStream_def status_defs split: option.splits)
  from assms t c obtain c' where
    body: "removeStream_connection env deviceId sid c = Some (NO_ERROR, c', calls)"
    and hal': "hal' = hal\<lparr>mConnections := kv_store (mConnections hal) deviceId
                                       (kv_store connections sid c')\<rparr>"
    by (auto simp: removeStream_def split: option.splits)
  note post = removeStream_connection_NO_ERROR [OF body]
  from c have "map_of connections sid \<noteq> None" by simp
  from connectionOf_stored [OF t this] hal'
  have c'': "connectionOf hal' deviceId sid = Some c'" by simp
  have same: "hal' = hal" if "mSurface c = None"
    using that post hal' stored_same [OF t c] by simp
  from c'' obtain connections' where
    t': "map_of (mConnections hal') deviceId = Some connections'"
    and c3: "map_of connections' sid = Some c'"
    by (auto simp: connectionOf_def split: option.splits)
  from post have "removeStream_connection env' deviceId sid c' = Some (NO_ERROR, c', [])"
    by (simp add: removeStream_connection_def)
  with t' c3 stored_same [OF t' c3]
  have again: "removeStream hal' env' deviceId sid = Return (NO_ERROR, hal', [])"
    by (simp add: removeStream_def)
  from t c have "connectionOf hal deviceId sid = Some c"
    by (simp add: connectionOf_def)
  with c'' post same again show ?thesis by auto
qed

text \<open>The hypothesis of C10 at stream 0 of device 1, bound to surface 1 with handle 5.\<close>

theorem removeStream_twice_witness:
  "removeStream (streaming (Some 1) (Some 5)) service_example 1 0 =
     Return (NO_ERROR, streaming None None, [setSidebandStream 1 None, CloseStream 1 0])
   \<and> removeStream (streaming None None) service_example 1 0 =
     Return (NO_ERROR, streaming None None, [])"
  using removeStream_twice [OF remove_closes, of service_example] remove_closes
  by blast

text \<open>
  C10 as stated fails. Stream 0 of device 1 is bound to surface 1; a first
  \<^verbatim>\<open>removeStream\<close> finds the service failing to close the stream and returns
  \<open>BAD_VALUE\<close> with the surface cleared and the source handle kept; the next
  \<^verbatim>\<open>removeStream\<close> returns \<open>NO_ERROR\<close> and the source handle is still there.
\<close>

theorem removeStream_twice_counterexample:
  "addOrUpdateStream device_available service_example 1 0 (Some 1) =
     Return (NO_ERROR, streaming (Some 1) (Some 5),
             [GetStreamConfigurations 1, OpenStream 1 0, setSidebandStream 1 (Some 5)])
   \<and> removeStream (streaming (Some 1) (Some 5))
       (service_example\<lparr>closeStream := \<lambda>deviceId sid. UNKNOWN\<rparr>) 1 0 =
     Return (BAD_VALUE, streaming None (Some 5), [setSidebandStream 1 None, CloseStream 1 0])
   \<and> removeStream (streaming None (Some 5)) service_example 1 0 =
     Return (NO_ERROR, streaming None (Some 5), [])
   \<and> connectionOf (streaming None (Some 5)) 1 0 =
     Some \<lparr>mSurface = None, mStreamType = Some TV_STREAM_TYPE_INDEPENDENT_VIDEO_SOURCE,
           mSourceHandle = Some 5, mThread = None\<rparr>"
proof -
  have "connectionOf (streaming None (Some 5)) 1 0 =
     Some \<lparr>mSurface = None, mStreamType = Some TV_STREAM_TYPE_INDEPENDENT_VIDEO_SOURCE,
           mSourceHandle = Some 5, mThread = None\<rparr>"
    by (simp add: connectionOf_def streaming_def)
  with first_add remove_close_fails remove_nothing [of "Some 5"] show ?thesis
    by blast
qed

subsection \<open>A device becoming unavailable\<close>

lemma waitWhileCapturing_returns:
  "err \<noteq> NO_ERROR \<Longrightarrow> waitWhileCapturing p (ws @ (err, others) # ws') \<noteq> None"
proof (induction ws arbitrary: p)
  case Nil
  then show ?case by simp
next
  case (Cons w ws)
  obtain e f where w: "w = (e, f)" by (cases w)
  from Cons.IH [OF Cons.prems, of "f p"] show ?case
    by (auto simp: w split: option.splits)
qed

lemma shutdown_returns:
  "err \<noteq> NO_ERROR \<Longrightarrow> shutdown p (ws @ (err, others) # ws') \<noteq> None"
  using waitWhileCapturing_returns [of err "p\<lparr>mShutdown := True\<rparr>" ws others ws']
  by (auto simp: shutdown_def setSurfaceLocked_def Let_def split: option.splits)

lemma all_return_without_producers:
  "\<forall>(sid, c) \<in> set connections. mThread c = None \<Longrightarrow> all_return env deviceId connections"
  by (auto simp: all_return_def removeStream_connection_def Let_def split: option.splits)

lemma removeStreams_from:
  assumes "map_of (mConnections hal) deviceId = Some connections"
    and "distinct (map fst connections)"
    and "i \<le> length connections"
    and "all_return env deviceId (drop i connections)"
  shows "\<exists>hal' connections'.
           removeStreams hal env deviceId i =
             Return (hal', concat (map (removeStream_calls env deviceId) (drop i connections)))
         \<and> map_of (mConnections hal') deviceId = Some connections'
         \<and> (\<forall>d. d \<noteq> deviceId \<longrightarrow> map_of (mConnections hal') d = map_of (mConnections hal) d)"
  using assms
proof (induction "length connections - i" arbitrary: hal connections i)
  case 0
  then have "i = length connections" by simp
  with "0.prems"(1) show ?case
    by (subst removeStreams.simps) simp
next
  case (Suc n)
  then have i: "i < length connections" by simp
  obtain sid c where e: "connections ! i = (sid, c)" by (cases "connections ! i")
  from i have split: "drop i connections = (sid, c) # drop (Suc i) connections"
    by (simp add: Cons_nth_drop_Suc [symmetric] e)
  with Suc.prems(4) obtain status c' calls where
    body: "removeStream_connection env deviceId sid c = Some (status, c', calls)"
    and rest: "all_return env deviceId (drop (Suc i) connections)"
    by (auto simp: all_return_def)
  let ?connections = "connections[i := (sid, c')]"
  let ?hal = "hal\<lparr>mConnections := kv_store (mConnections hal) deviceId ?connections\<rparr>"
  from map_of_nth [OF Suc.prems(2) i] have look: "map_of connections sid = Some c"
    by (simp add: e)
  from kv_store_nth [OF Suc.prems(2) i, of c'] have store: "kv_store connections sid c' = ?connections"
    by (simp add: e)
  from Suc.prems(1) look body store
  have step: "removeStream hal env deviceId sid = Return (status, ?hal, calls)"
    by (simp add: removeStream_def)
  have keys: "map fst ?connections = map fst connections"
    using i e by (simp add: map_update) (metis fst_conv list_update_id map_update)
  have t: "map_of (mConnections ?hal) deviceId = Some ?connections"
    using Suc.prems(1) by (simp add: map_of_kv_store)
  have d: "distinct (map fst ?connections)"
    using keys Suc.prems(2) by simp
  have len: "Suc i \<le> length ?connections" using i by simp
  have drop: "drop (Suc i) ?connections = drop (Suc i) connections"
    by simp
  have n: "n = length ?connections - Suc i" using Suc.hyps(2) by simp
  from Suc.hyps(1) [OF n t d len] rest drop obtain hal' connections' where
    run: "removeStreams ?hal env deviceId (Suc i) =
             Return (hal', concat (map (removeStream_calls env deviceId) (drop (Suc i) connections)))"
    and t': "map_of (mConnections hal') deviceId = Some connections'"
    and others: "\<forall>d. d \<noteq> deviceId \<longrightarrow> map_of (mConnections hal') d = map_of (mConnections ?hal) d"
    by auto
  have calls: "removeStream_calls env deviceId (sid, c) = calls"
    by (simp add: removeStream_calls_def body)
  from Suc.prems(1) i e step run
  have "removeStreams hal env deviceId i =
      Return (hal', calls @ concat (map (removeStream_calls env deviceId) (drop (Suc i) connections)))"
    by (subst removeStreams.simps) (simp add: keyAt_def)
  with split calls t' others show ?case
    by (auto simp: map_of_kv_store)
qed

lemma removeStream_calls_closes:
  "removeStream_connection env deviceId sid c \<noteq> None \<Longrightarrow> mSurface c \<noteq> None \<Longrightarrow>
     CloseStream deviceId sid \<in> set (removeStream_calls env deviceId (sid, c))"
  by (auto simp: removeStream_calls_def removeStream_connection_def Let_def
      split: option.splits if_splits)

lemma removeStream_calls_no_notification:
  "deviceUnavailable d \<notin> set (removeStream_calls env deviceId entry)"
  by (auto simp: removeStream_calls_def removeStream_connection_def Let_def
      split: option.splits if_splits)

text \<open>
  C8. Take a registered device whose table has one entry for each key, and let the
  \<^verbatim>\<open>shutdown\<close> of every producer in it return. Then \<^verbatim>\<open>onDeviceUnavailable\<close> returns;
  its calls are those of \<^verbatim>\<open>removeStream\<close> for every entry of the table, in the order
  of the table and whatever status each of them returns, followed by one
  \<^verbatim>\<open>deviceUnavailable\<close> notification, and there is no other notification; every
  entry that had a surface has its stream closed; afterwards the device has no
  table and the tables of the other devices are what they were.
\<close>

theorem onDeviceUnavailable_sweep:
  assumes "map_of (mConnections hal) deviceId = Some connections"
    and "distinct (map fst connections)"
    and "all_return env deviceId connections"
  shows "\<exists>hal'. onDeviceUnavailable hal env deviceId =
             Return (hal', concat (map (removeStream_calls env deviceId) connections)
                           @ [deviceUnavailable deviceId])
         \<and> map_of (mConnections hal') deviceId = None
         \<and> (\<forall>d. d \<noteq> deviceId \<longrightarrow> map_of (mConnections hal') d = map_of (mConnections hal) d)
         \<and> (\<forall>(sid, c) \<in> set connections. mSurface c \<noteq> None \<longrightarrow>
               CloseStream deviceId sid \<in> set (removeStream_calls env deviceId (sid, c)))
         \<and> deviceUnavailable deviceId
               \<notin> set (concat (map (removeStream_calls env deviceId) connections))"
proof -
  from removeStreams_from [OF assms(1,2), of 0 env] assms(3) obtain hal1 connections1 where
    run: "removeStreams hal env deviceId 0 =
            Return (hal1, concat (map (removeStream_calls env deviceId) connections))"
    and others: "\<forall>d. d \<noteq> deviceId \<longrightarrow> map_of (mConnections hal1) d = map_of (mConnections hal) d"
    by auto
  let ?hal = "hal1\<lparr>mConnections := kv_removeItem (kv_store (mConnections hal1) deviceId []) deviceId\<rparr>"
  from assms(1) run have "onDeviceUnavailable hal env deviceId =
             Return (?hal, concat (map (removeStream_calls env deviceId) connections)
                           @ [deviceUnavailable deviceId])"
    by (simp add: onDeviceUnavailable_def)
  moreover have "map_of (mConnections ?hal) deviceId = None"
    by (simp add: map_of_kv_removeItem)
  moreover from others
  have "\<forall>d. d \<noteq> deviceId \<longrightarrow> map_of (mConnections ?hal) d = map_of (mConnections hal) d"
    by (simp add: map_of_kv_removeItem map_of_kv_store)
  moreover from assms(3)
  have "\<forall>(sid, c) \<in> set connections. mSurface c \<noteq> None \<longrightarrow>
               CloseStream deviceId sid \<in> set (removeStream_calls env deviceId (sid, c))"
    by (auto simp: all_return_def intro!: removeStream_calls_closes)
  moreover have "deviceUnavailable deviceId
               \<notin> set (concat (map (removeStream_calls env deviceId) connections))"
    by (simp add: removeStream_calls_no_notification)
  ultimately show ?thesis by blast
qed

text \<open>
  The hypotheses of C8 at device 1 with two streams, where \<^verbatim>\<open>removeStream\<close> on the
  first returns an error because the service fails to close it.
\<close>

theorem onDeviceUnavailable_sweep_witness:
  "map_of (mConnections two_streams) 1 =
      Some [(0, \<lparr>mSurface = Some 1,
                 mStreamType = Some TV_STREAM_TYPE_INDEPENDENT_VIDEO_SOURCE,
                 mSourceHandle = Some 5, mThread = None\<rparr>),
            (1, \<lparr>mSurface = Some 2,
                 mStreamType = Some TV_STREAM_TYPE_INDEPENDENT_VIDEO_SOURCE,
                 mSourceHandle = Some 6, mThread = None\<rparr>)]
   \<and> removeStream two_streams first_close_fails 1 0 \<noteq>
       Return (NO_ERROR, two_streams, [])
   \<and> onDeviceUnavailable two_streams first_close_fails 1 =
     Return (\<lparr>mConnections = []\<rparr>,
             [setSidebandStream 1 None, CloseStream 1 0,
              setSidebandStream 2 None, CloseStream 1 1, deviceUnavailable 1])
   \<and> map_of (mConnections \<lparr>mConnections = []\<rparr>) 1 = (None :: (int, Connection) KeyedVector option)"
proof -
  let ?connections = "[(0 :: int, \<lparr>mSurface = Some 1,
                 mStreamType = Some TV_STREAM_TYPE_INDEPENDENT_VIDEO_SOURCE,
                 mSourceHandle = Some 5, mThread = None\<rparr>),
            (1, \<lparr>mSurface = Some 2,
                 mStreamType = Some TV_STREAM_TYPE_INDEPENDENT_VIDEO_SOURCE,
                 mSourceHandle = Some 6, mThread = None\<rparr>)]"
  have t: "map_of (mConnections two_streams) 1 = Some ?connections"
    by (simp add: two_streams_def)
  have d: "distinct (map fst ?connections)" by simp
  have r: "all_return first_close_fails 1 ?connections"
    by (simp add: all_return_def removeStream_connection_def first_close_fails_def
        service_example_def)
  have f: "removeStream two_streams first_close_fails 1 0 \<noteq> Return (NO_ERROR, two_streams, [])"
    by (simp add: removeStream_def removeStream_connection_def two_streams_def
        first_close_fails_def service_example_def)
  from onDeviceUnavailable_sweep [OF t d r] obtain hal' where
    "onDeviceUnavailable two_streams first_close_fails 1 =
       Return (hal', concat (map (removeStream_calls first_close_fails 1) ?connections)
                           @ [deviceUnavailable 1])"
    and "map_of (mConnections hal') 1 = None"
    by blast
  with two_streams_run t f show ?thesis by simp
qed

subsection \<open>Completions\<close>

text \<open>
  C7, as the code has it. For a connection that has a producer,
  \<^verbatim>\<open>JTvInputHal::onCaptured\<close> forwards the completion to the producer and raises one
  \<^verbatim>\<open>firstFrameCaptured\<close> notification when the sequence number is 0, none otherwise;
  the connection keeps its producer, so every later completion numbered 0 raises
  the notification again.
\<close>

theorem firstFrameCaptured_each_time:
  assumes "connectionOf hal deviceId sid = Some connection" "mThread connection = Some thread"
  shows "\<exists>hal'. JTvInputHal_onCaptured hal deviceId sid seq succeeded =
            Return (hal', if seq = 0 then [firstFrameCaptured deviceId sid] else [])
          \<and> connectionOf hal' deviceId sid =
              Some (connection\<lparr>mThread := Some (fst (onCaptured thread seq succeeded))\<rparr>)"
proof -
  from assms(1) obtain connections where
    t: "map_of (mConnections hal) deviceId = Some connections"
    and c: "map_of connections sid = Some connection"
    by (auto simp: connectionOf_def split: option.splits)
  from c have "map_of connections sid \<noteq> None" by simp
  from connectionOf_stored [OF t this] t c assms(2) show ?thesis
    by (simp add: JTvInputHal_onCaptured_def Let_def)
qed

text \<open>The hypotheses of C7 at a connection with a new producer.\<close>

theorem firstFrameCaptured_each_time_witness:
  "connectionOf (producing (newBufferProducerThread 1 0)) 1 0 =
     Some \<lparr>mSurface = Some 1, mStreamType = Some TV_STREAM_TYPE_BUFFER_PRODUCER,
           mSourceHandle = None, mThread = Some (newBufferProducerThread 1 0)\<rparr>
   \<and> (\<exists>hal'. JTvInputHal_onCaptured (producing (newBufferProducerThread 1 0)) 1 0 0 True =
            Return (hal', [firstFrameCaptured 1 0]))"
proof -
  have c: "connectionOf (producing (newBufferProducerThread 1 0)) 1 0 =
     Some \<lparr>mSurface = Some 1, mStreamType = Some TV_STREAM_TYPE_BUFFER_PRODUCER,
           mSourceHandle = None, mThread = Some (newBufferProducerThread 1 0)\<rparr>"
    by (simp add: connectionOf_def producing_def)
  from firstFrameCaptured_each_time [OF c, of "newBufferProducerThread 1 0" 0 True] c
  show ?thesis by auto
qed

text \<open>
  C7 as stated fails: two completions numbered 0 for the same producer raise the
  notification twice.
\<close>

theorem firstFrameCaptured_counterexample:
  "JTvInputHal_onCaptured (producing (newBufferProducerThread 1 0)) 1 0 0 True =
     Return (producing ((newBufferProducerThread 1 0)\<lparr>mBufferState := CAPTURED\<rparr>),
             [firstFrameCaptured 1 0])
   \<and> JTvInputHal_onCaptured (producing ((newBufferProducerThread 1 0)\<lparr>mBufferState := CAPTURED\<rparr>))
        1 0 0 True =
     Return (producing ((newBufferProducerThread 1 0)\<lparr>mBufferState := CAPTURED\<rparr>),
             [firstFrameCaptured 1 0])"
  by (simp add: JTvInputHal_onCaptured_def producing_def onCaptured_def
      newBufferProducerThread_def)

end
